(* ===== verification/Prelude.thy ===== *)
theory Prelude
  imports Main "HOL-Library.Word" "HOL-Library.Sublist" "HOL-Library.Multiset"
begin

text \<open>
  The vocabulary the component theories share: Go's bytes and strings, results with errors,
  calls that may panic, 64-bit signed wrap-around, reachability of a step relation with its
  invariant rule and refinement of systems as locales, and the list lemmas that more than one
  component uses.
\<close>

subsection \<open>Types\<close>

text \<open>
  A Go \<^verbatim>\<open>string\<close> is a byte sequence, and so is Isabelle's \<^typ>\<open>string\<close> (a list of 8-bit
  characters). A \<^verbatim>\<open>[]byte\<close> is a list of 8-bit words.
\<close>

type_synonym u8 = "8 word"
type_synonym bytes = "u8 list"
type_synonym ('e, 'a) result = "'e + 'a"

text \<open>The outcome of code that may panic (an index out of range, a division by zero).\<close>

datatype 'a outcome = Returns 'a | Panics

named_theorems go_eval \<open>equations that evaluate the model's functions at a concrete input\<close>
named_theorems step_defs \<open>definitions of the handlers of a component\<close>

lemmas [go_eval] = upt_conv_Cons Let_def

subsection \<open>Errors as values\<close>

text \<open>\<open>bind\<close> of the error monad: what Go writes as \<^verbatim>\<open>if err != nil { return nil, err }\<close>.\<close>

fun bind_result :: "('e, 'a) result \<Rightarrow> ('a \<Rightarrow> ('e, 'b) result) \<Rightarrow> ('e, 'b) result" where
  "bind_result (Inl e) f = Inl e"
| "bind_result (Inr a) f = f a"

lemma bind_result_Inr_iff:
  "bind_result m f = Inr b \<longleftrightarrow> (\<exists>a. m = Inr a \<and> f a = Inr b)"
  by (cases m) auto

lemma bind_result_Inl_iff:
  "bind_result m f = Inl e \<longleftrightarrow> m = Inl e \<or> (\<exists>a. m = Inr a \<and> f a = Inl e)"
  by (cases m) auto

lemma bind_result_assoc:
  "bind_result (bind_result m f) g = bind_result m (\<lambda>a. bind_result (f a) g)"
  by (cases m) auto

text \<open>Wrapping an error with context, as \<^verbatim>\<open>errors.Wrapf\<close> and \<^verbatim>\<open>fmt.Errorf("...%v", err)\<close> do.\<close>

fun wrap_error :: "('e \<Rightarrow> 'f) \<Rightarrow> ('e, 'a) result \<Rightarrow> ('f, 'a) result" where
  "wrap_error w (Inl e) = Inl (w e)"
| "wrap_error w (Inr a) = Inr a"

lemma wrap_error_Inr_iff [simp]: "wrap_error w m = Inr a \<longleftrightarrow> m = Inr a"
  by (cases m) auto

lemma wrap_error_Inl_iff: "wrap_error w m = Inl f \<longleftrightarrow> (\<exists>e. m = Inl e \<and> f = w e)"
  by (cases m) auto

subsection \<open>Go's 64-bit int\<close>

definition wrap64 :: "int \<Rightarrow> int" where
  [go_eval]: "wrap64 n = (n + 2 ^ 63) mod 2 ^ 64 - 2 ^ 63"

lemma wrap64_id: "- (2 ^ 63) \<le> n \<Longrightarrow> n < 2 ^ 63 \<Longrightarrow> wrap64 n = n"
  by (simp add: wrap64_def)

lemma wrap64_range: "- (2 ^ 63) \<le> wrap64 n \<and> wrap64 n < 2 ^ 63"
  by (simp add: wrap64_def)

subsection \<open>Reachable states and invariants\<close>

inductive reach :: "('s \<Rightarrow> bool) \<Rightarrow> ('s \<Rightarrow> 's \<Rightarrow> bool) \<Rightarrow> 's \<Rightarrow> bool"
  for init :: "'s \<Rightarrow> bool" and step :: "'s \<Rightarrow> 's \<Rightarrow> bool" where
  reach_init: "init s \<Longrightarrow> reach init step s"
| reach_step: "reach init step s \<Longrightarrow> step s t \<Longrightarrow> reach init step t"

text \<open>
  The contract of an invariant: it holds at the start and every step of a reachable state
  keeps it. Each component that is a state machine interprets this locale with its own step
  relation, and the reachability theorem is proved here once.
\<close>

locale invariant_system =
  fixes start :: "'s \<Rightarrow> bool"
    and step :: "'s \<Rightarrow> 's \<Rightarrow> bool"
    and invar :: "'s \<Rightarrow> bool"
  assumes invar_start: "start s \<Longrightarrow> invar s"
    and invar_step: "invar s \<Longrightarrow> step s t \<Longrightarrow> invar t"
begin

lemma invar_reach: "reach start step s \<Longrightarrow> invar s"
  by (induction rule: reach.induct) (auto intro: invar_start invar_step)

lemma invar_star: "step\<^sup>*\<^sup>* s t \<Longrightarrow> invar s \<Longrightarrow> invar t"
  by (induction rule: rtranclp_induct) (auto intro: invar_step)

lemma reach_star: "step\<^sup>*\<^sup>* s t \<Longrightarrow> reach start step s \<Longrightarrow> reach start step t"
  by (induction rule: rtranclp_induct) (auto intro: reach_step)

end

text \<open>
  The contract of a refinement: a detailed system whose states map to states of an abstract one.
  Every step is a step of the abstract system or leaves its state alone, and keeps what relates the
  two. A reachable state then maps to a reachable state.
\<close>

locale refinement_system =
  fixes start :: "'c \<Rightarrow> bool"
    and step :: "'c \<Rightarrow> 'c \<Rightarrow> bool"
    and astart :: "'a \<Rightarrow> bool"
    and astep :: "'a \<Rightarrow> 'a \<Rightarrow> bool"
    and absf :: "'c \<Rightarrow> 'a"
    and related :: "'c \<Rightarrow> bool"
  assumes sim_start: "start s \<Longrightarrow> astart (absf s) \<and> related s"
    and sim_step: "related s \<Longrightarrow> reach astart astep (absf s) \<Longrightarrow> step s t \<Longrightarrow>
      (absf t = absf s \<or> astep (absf s) (absf t)) \<and> related t"
begin

lemma reach_refines: "reach start step s \<Longrightarrow> reach astart astep (absf s) \<and> related s"
proof (induction rule: reach.induct)
  case (reach_init s)
  then show ?case using sim_start reach.reach_init by metis
next
  case (reach_step s t)
  then show ?case using sim_step [of s t] reach.reach_step [of astart astep "absf s" "absf t"] by auto
qed

lemma abs_invariant: "(\<And>a. reach astart astep a \<Longrightarrow> P a) \<Longrightarrow> reach start step s \<Longrightarrow> P (absf s)"
  using reach_refines by blast

end

subsection \<open>Lists\<close>

lemma list_all_concat [simp]: "list_all P (concat xss) = list_all (list_all P) xss"
  by (induction xss) auto

lemma concat_replicate_length: "length (concat (replicate n xs)) = n * length xs"
  by (induction n) auto

lemma mset_concat_replicate: "mset (concat (replicate n xs)) = repeat_mset n (mset xs)"
  by (induction n) auto

lemma mset_concat_map_replicate:
  "mset (concat (map (\<lambda>x. replicate n (f x)) xs)) = repeat_mset n (mset (map f xs))"
  by (induction xs) auto

lemma replicate_unroll [go_eval]: "0 < n \<Longrightarrow> replicate n x = x # replicate (n - 1) x"
  by (cases n) auto

lemma concat_replicate_single [simp]: "concat (replicate n [x]) = replicate n x"
  by (induction n) auto

lemma set_concat_replicate: "0 < n \<Longrightarrow> set (concat (replicate n xs)) = set xs"
  by (cases n) (auto simp: set_replicate_conv_if)

lemma last_in_append: "ys \<noteq> [] \<Longrightarrow> last (xs @ ys) = last ys"
  by simp

end
