(* ===== verification/Go_Strings.thy ===== *)
theory Go_Strings
  imports Prelude
begin

text \<open>
  The functions of Go's standard library that the program applies to strings:
  \<^verbatim>\<open>strings.IndexByte\<close>, \<^verbatim>\<open>strings.Index\<close>, \<^verbatim>\<open>strings.Split\<close> with a one-byte separator,
  \<^verbatim>\<open>strings.HasSuffix\<close>, \<^verbatim>\<open>strconv.Atoi\<close> and the \<^verbatim>\<open>%d\<close> and \<^verbatim>\<open>%0Nd\<close> verbs of
  \<^verbatim>\<open>fmt.Sprintf\<close>. An index is an \<open>option\<close>: \<open>None\<close> is Go's \<open>-1\<close>.
\<close>

subsection \<open>Searching\<close>

fun index_byte :: "string \<Rightarrow> char \<Rightarrow> nat option" where
  "index_byte [] c = None"
| "index_byte (x # xs) c = (if x = c then Some 0 else map_option Suc (index_byte xs c))"

lemma index_byte_None [simp]: "index_byte s c = None \<longleftrightarrow> c \<notin> set s"
  by (induction s) auto

lemma index_byte_append_here [simp]: "c \<notin> set p \<Longrightarrow> index_byte (p @ c # s) c = Some (length p)"
  by (induction p) auto

lemma index_byte_SomeD:
  "index_byte s c = Some i \<Longrightarrow> i < length s \<and> s ! i = c \<and> c \<notin> set (take i s)"
proof (induction s arbitrary: i)
  case Nil
  then show ?case by simp
next
  case (Cons x xs)
  then show ?case by (cases i) (auto split: if_splits)
qed

lemma index_byte_SomeE:
  assumes "index_byte s c = Some i"
  obtains p q where "s = p @ c # q" and "length p = i" and "c \<notin> set p"
proof
  show "s = take i s @ c # drop (Suc i) s"
    using index_byte_SomeD [OF assms] id_take_nth_drop [of i s] by simp
  show "length (take i s) = i" "c \<notin> set (take i s)"
    using index_byte_SomeD [OF assms] by auto
qed

fun index_of :: "string \<Rightarrow> string \<Rightarrow> nat option" where
  "index_of s sub =
     (if prefix sub s then Some 0
      else case s of [] \<Rightarrow> None | _ # xs \<Rightarrow> map_option Suc (index_of xs sub))"

declare index_of.simps [simp del]

lemma index_of_Nil [simp]: "index_of [] sub = (if sub = [] then Some 0 else None)"
  by (subst index_of.simps) auto

lemma index_of_Cons:
  "index_of (x # xs) sub =
     (if prefix sub (x # xs) then Some 0 else map_option Suc (index_of xs sub))"
  by (subst index_of.simps) simp

lemma index_of_SomeD: "index_of s sub = Some i \<Longrightarrow> prefix sub (drop i s) \<and> i + length sub \<le> length s"
proof (induction s arbitrary: i)
  case Nil
  then show ?case by (auto split: if_splits)
next
  case (Cons x xs)
  then show ?case
    by (auto simp: index_of_Cons dest: prefix_length_le split: if_splits)
qed

lemma index_of_least: "index_of s sub = Some i \<Longrightarrow> k < i \<Longrightarrow> \<not> prefix sub (drop k s)"
proof (induction s arbitrary: i k)
  case Nil
  then show ?case by (auto split: if_splits)
next
  case (Cons x xs)
  then show ?case
    by (cases k) (auto simp: index_of_Cons split: if_splits)
qed

lemma index_of_None: "index_of s sub = None \<longleftrightarrow> (\<forall>k \<le> length s. \<not> prefix sub (drop k s))"
proof (induction s)
  case Nil
  then show ?case by auto
next
  case (Cons x xs)
  have "(\<forall>k \<le> length (x # xs). \<not> prefix sub (drop k (x # xs))) \<longleftrightarrow>
        \<not> prefix sub (x # xs) \<and> (\<forall>k \<le> length xs. \<not> prefix sub (drop k xs))"
    by (metis Suc_le_mono drop0 drop_Suc_Cons le0 length_Cons not0_implies_Suc)
  then show ?case using Cons by (simp add: index_of_Cons)
qed

lemma index_of_None_sublist: "index_of s sub = None \<longleftrightarrow> \<not> sublist sub s"
proof
  assume none: "index_of s sub = None"
  show "\<not> sublist sub s"
  proof
    assume "sublist sub s"
    then obtain ps ss where "s = ps @ sub @ ss" by (auto simp: sublist_def)
    then have "prefix sub (drop (length ps) s)" and "length ps \<le> length s" by auto
    with none show False by (auto simp: index_of_None)
  qed
next
  assume no: "\<not> sublist sub s"
  have "\<not> prefix sub (drop k s)" for k
  proof
    assume "prefix sub (drop k s)"
    then have "sublist sub (take k s @ drop k s)"
      by (blast intro: sublist_appendI prefix_imp_sublist sublist_order.order_trans
          sublist_append_leftI)
    with no show False by simp
  qed
  then show "index_of s sub = None" by (simp add: index_of_None)
qed

lemma index_of_append_None:
  "(\<forall>k < length p. \<not> prefix sub (drop k (p @ s))) \<Longrightarrow>
   index_of (p @ s) sub = map_option (\<lambda>i. length p + i) (index_of s sub)"
proof (induction p)
  case Nil
  then show ?case by (simp add: option.map_ident)
next
  case (Cons x p)
  have "\<not> prefix sub (x # p @ s)" using Cons.prems by force
  moreover have "\<forall>k < length p. \<not> prefix sub (drop k (p @ s))"
    using Cons.prems by (metis Suc_less_eq append_Cons drop_Suc_Cons length_Cons)
  ultimately show ?case using Cons.IH
    by (simp add: index_of_Cons option.map_comp comp_def)
qed

definition has_suffix :: "string \<Rightarrow> string \<Rightarrow> bool" where
  [go_eval]: "has_suffix s suf = suffix suf s"

subsection \<open>Splitting\<close>

fun split_on :: "char \<Rightarrow> string \<Rightarrow> string list" where
  "split_on c [] = [[]]"
| "split_on c (x # xs) =
     (if x = c then [] # split_on c xs
      else case split_on c xs of [] \<Rightarrow> [[x]] | p # ps \<Rightarrow> (x # p) # ps)"

fun join_with :: "string \<Rightarrow> string list \<Rightarrow> string" where
  "join_with sep [] = []"
| "join_with sep [p] = p"
| "join_with sep (p # q # ps) = p @ sep @ join_with sep (q # ps)"

lemma join_with_Cons: "ps \<noteq> [] \<Longrightarrow> join_with sep (p # ps) = p @ sep @ join_with sep ps"
  by (cases ps) auto

lemma split_on_not_Nil [simp]: "split_on c s \<noteq> []"
  by (induction s) (auto split: list.splits)

lemma split_on_free [simp]: "c \<notin> set s \<Longrightarrow> split_on c s = [s]"
  by (induction s) auto

lemma split_on_append [simp]:
  "c \<notin> set p \<Longrightarrow> split_on c (p @ c # s) = p # split_on c s"
  by (induction p) auto

lemma split_on_append_sep: "split_on c (a @ c # b) = split_on c a @ split_on c b"
  by (induction a) (auto split: list.splits)

lemma join_split: "join_with [c] (split_on c s) = s"
proof (induction s)
  case Nil
  then show ?case by simp
next
  case (Cons x xs)
  obtain p ps where sp: "split_on c xs = p # ps" by (meson list.exhaust split_on_not_Nil)
  then show ?case using Cons by (cases ps) auto
qed

lemma split_join:
  assumes "ps \<noteq> []" and "\<forall>p \<in> set ps. c \<notin> set p"
  shows "split_on c (join_with [c] ps) = ps"
  using assms by (induction "[c]" ps rule: join_with.induct) auto

lemma split_on_items_free: "p \<in> set (split_on c s) \<Longrightarrow> c \<notin> set p"
  by (induction s arbitrary: p) (auto split: list.splits if_splits)

subsection \<open>Decimal numbers\<close>

definition digit_char :: "nat \<Rightarrow> char" where
  [go_eval]: "digit_char d = ''0123456789'' ! d"

definition digit_val :: "char \<Rightarrow> nat option" where
  [go_eval]: "digit_val c =
     (let k = of_char c in if 48 \<le> k \<and> k \<le> 57 then Some (k - 48) else None)"

lemma digit_val_char [simp]: "d < 10 \<Longrightarrow> digit_val (digit_char d) = Some d"
proof -
  assume "d < 10"
  then have "d \<in> {0, 1, 2, 3, 4, 5, 6, 7, 8, 9}" by auto
  then show ?thesis by (auto simp: digit_val_def digit_char_def)
qed

lemma digit_val_less: "digit_val c = Some d \<Longrightarrow> d < 10"
  by (auto simp: digit_val_def Let_def split: if_splits)

definition is_digit :: "char \<Rightarrow> bool" where
  "is_digit c = (digit_val c \<noteq> None)"

lemma is_digit_char [simp]: "d < 10 \<Longrightarrow> is_digit (digit_char d)"
  by (simp add: is_digit_def)

fun show_nat :: "nat \<Rightarrow> string" where
  "show_nat n = (if n < 10 then [digit_char n] else show_nat (n div 10) @ [digit_char (n mod 10)])"

declare show_nat.simps [simp del]

lemma show_nat_less [go_eval]: "n < 10 \<Longrightarrow> show_nat n = [digit_char n]"
  by (subst show_nat.simps) simp

lemma show_nat_ge [go_eval]:
  "\<not> n < 10 \<Longrightarrow> show_nat n = show_nat (n div 10) @ [digit_char (n mod 10)]"
  by (subst show_nat.simps) simp

definition show_int :: "int \<Rightarrow> string" where
  [go_eval]: "show_int n = (if n < 0 then CHR ''-'' # show_nat (nat (- n)) else show_nat (nat n))"

text \<open>\<^verbatim>\<open>fmt.Sprintf("%0Nd", n)\<close>: zero padding to a minimal width, the sign first.\<close>

definition pad0 :: "nat \<Rightarrow> int \<Rightarrow> string" where
  [go_eval]: "pad0 w n =
     (let ds = show_nat (nat \<bar>n\<bar>); sgnl = (if n < 0 then ''-'' else [])
      in sgnl @ replicate (w - length sgnl - length ds) (CHR ''0'') @ ds)"

lemma show_nat_digits: "list_all is_digit (show_nat n)"
proof (induction n rule: show_nat.induct)
  case (1 n)
  then show ?case by (subst show_nat.simps) auto
qed

lemma show_nat_not_Nil [simp]: "show_nat n \<noteq> []"
  by (subst show_nat.simps) simp

lemma show_nat_length_le: "n < 10 ^ w \<Longrightarrow> 0 < w \<Longrightarrow> length (show_nat n) \<le> w"
proof (induction n arbitrary: w rule: show_nat.induct)
  case (1 n)
  show ?case
  proof (cases "n < 10")
    case True
    then show ?thesis using "1.prems" by (subst show_nat.simps) simp
  next
    case False
    then obtain v where w: "w = Suc v" and v: "0 < v"
      using "1.prems" by (cases w; cases "w - 1") auto
    then have "n div 10 < 10 ^ v" using "1.prems" by (simp add: less_mult_imp_div_less mult.commute)
    then have "length (show_nat (n div 10)) \<le> v" using "1.IH" False v by blast
    then show ?thesis using False w by (subst show_nat.simps) simp
  qed
qed

lemma pad0_length: "0 \<le> n \<Longrightarrow> n < 10 ^ w \<Longrightarrow> 0 < w \<Longrightarrow> length (pad0 w n) = w"
proof -
  assume a: "0 \<le> n" "n < 10 ^ w" "0 < w"
  have "nat n < 10 ^ w" using a by (simp add: nat_less_iff)
  then have "length (show_nat (nat n)) \<le> w" using a(3) by (rule show_nat_length_le)
  then show ?thesis using a by (simp add: pad0_def Let_def)
qed

subsection \<open>strconv.Atoi\<close>

datatype atoi_error = ErrSyntax | ErrRange

text \<open>
  \<open>parse_uint\<close> is the digit loop of \<^verbatim>\<open>ParseUint\<close> with base 10 and 64 bits: the first byte that
  is no digit, or the first digit that overflows, decides the error.
\<close>

fun parse_uint :: "string \<Rightarrow> nat \<Rightarrow> (atoi_error, nat) result" where
  "parse_uint [] n = Inr n"
| "parse_uint (c # cs) n =
     (case digit_val c of
        None \<Rightarrow> Inl ErrSyntax
      | Some d \<Rightarrow> if 2 ^ 64 \<le> n * 10 + d then Inl ErrRange else parse_uint cs (n * 10 + d))"

definition atoi_unsigned :: "string \<Rightarrow> (atoi_error, nat) result" where
  [go_eval]: "atoi_unsigned s = (if s = [] then Inl ErrSyntax else parse_uint s 0)"

definition atoi :: "string \<Rightarrow> (atoi_error, int) result" where
  [go_eval]: "atoi s =
     (case s of
        [] \<Rightarrow> Inl ErrSyntax
      | c # cs \<Rightarrow>
          if c = CHR ''-'' then
            bind_result (atoi_unsigned cs)
              (\<lambda>u. if 2 ^ 63 < u then Inl ErrRange else Inr (- int u))
          else
            bind_result (atoi_unsigned (if c = CHR ''+'' then cs else s))
              (\<lambda>u. if 2 ^ 63 \<le> u then Inl ErrRange else Inr (int u)))"

lemma atoi_range: "atoi s = Inr n \<Longrightarrow> - (2 ^ 63) \<le> n \<and> n < 2 ^ 63"
  by (auto simp: atoi_def bind_result_Inr_iff split: list.splits if_splits)

lemma parse_uint_bound: "parse_uint s n = Inr m \<Longrightarrow> m < (n + 1) * 10 ^ length s"
proof (induction s n rule: parse_uint.induct)
  case (1 n)
  then show ?case by simp
next
  case (2 c cs n)
  then obtain d where d: "digit_val c = Some d" by (auto split: option.splits)
  with "2.prems" have step: "parse_uint cs (n * 10 + d) = Inr m" "\<not> 2 ^ 64 \<le> n * 10 + d"
    by (auto split: if_splits)
  then have "m < (n * 10 + d + 1) * 10 ^ length cs" using "2.IH" d by blast
  also have "\<dots> \<le> ((n + 1) * 10) * 10 ^ length cs"
    using digit_val_less [OF d] by (intro mult_le_mono1) simp
  finally show ?case by (simp add: algebra_simps)
qed

text \<open>A number read from a string of \<open>w\<close> bytes without a minus sign has at most \<open>w\<close> digits.\<close>

lemma atoi_fits:
  assumes "atoi s = Inr n" and "CHR ''-'' \<notin> set s"
  shows "0 \<le> n \<and> n < 10 ^ length s"
proof -
  obtain c cs where s: "s = c # cs" using assms(1) by (cases s) (auto simp: atoi_def)
  define t where "t = (if c = CHR ''+'' then cs else s)"
  obtain u where u: "parse_uint t 0 = Inr u" "n = int u"
    using assms s unfolding t_def
    by (auto simp: atoi_def atoi_unsigned_def bind_result_Inr_iff split: if_splits)
  have len: "length t \<le> length s" by (simp add: t_def s)
  have "u < 10 ^ length t" using parse_uint_bound [OF u(1)] by simp
  also have "(10::nat) ^ length t \<le> 10 ^ length s" using len by simp
  finally have "int u < 10 ^ length s" by (metis of_nat_less_iff of_nat_numeral of_nat_power)
  then show ?thesis using u(2) by simp
qed

lemma parse_uint_append:
  "parse_uint (a @ b) n = bind_result (parse_uint a n) (parse_uint b)"
  by (induction a n rule: parse_uint.induct) (auto split: option.splits)

lemma parse_uint_show_nat: "n < 2 ^ 64 \<Longrightarrow> parse_uint (show_nat n) 0 = Inr n"
proof (induction n rule: show_nat.induct)
  case (1 n)
  show ?case
  proof (cases "n < 10")
    case True
    then show ?thesis by (subst show_nat.simps) simp
  next
    case False
    have "parse_uint (show_nat (n div 10)) 0 = Inr (n div 10)"
      using "1.IH" False "1.prems" by simp
    then show ?thesis using False "1.prems"
      by (subst show_nat.simps) (simp add: parse_uint_append)
  qed
qed

lemma parse_uint_zeros: "parse_uint (replicate k (CHR ''0'') @ s) 0 = parse_uint s 0"
  by (induction k) (auto simp: digit_val_def)

lemma hd_digit_not_sign:
  "list_all is_digit s \<Longrightarrow> s \<noteq> [] \<Longrightarrow> hd s \<noteq> CHR ''-'' \<and> hd s \<noteq> CHR ''+''"
  by (cases s) (auto simp: is_digit_def digit_val_def)

lemma pad0_nonneg_digits: "0 \<le> n \<Longrightarrow> list_all is_digit (pad0 w n)"
proof -
  have "is_digit (CHR ''0'')" by (simp add: is_digit_def digit_val_def)
  then show "0 \<le> n \<Longrightarrow> list_all is_digit (pad0 w n)"
    using show_nat_digits by (auto simp: pad0_def Let_def list_all_iff)
qed

lemma atoi_digits:
  assumes "list_all is_digit s" and "s \<noteq> []"
  shows "atoi s = bind_result (parse_uint s 0) (\<lambda>u. if 2 ^ 63 \<le> u then Inl ErrRange else Inr (int u))"
  using hd_digit_not_sign [OF assms] assms(2)
  by (cases s) (auto simp: atoi_def atoi_unsigned_def)

text \<open>Printing with zero padding and reading back is the identity on non-negative ints.\<close>

lemma atoi_pad0: "0 \<le> n \<Longrightarrow> n < 2 ^ 63 \<Longrightarrow> atoi (pad0 w n) = Inr n"
proof -
  assume a: "0 \<le> n" "n < 2 ^ 63"
  have ne: "pad0 w n \<noteq> []" by (simp add: pad0_def Let_def)
  have small: "nat n < 2 ^ 63" using a by (simp add: nat_less_iff)
  have "parse_uint (pad0 w n) 0 = Inr (nat n)"
    using a small by (simp add: pad0_def Let_def parse_uint_zeros parse_uint_show_nat)
  then show ?thesis
    using atoi_digits [OF pad0_nonneg_digits ne] a small by simp
qed

lemma digit_not_special:
  "is_digit c \<Longrightarrow> c \<notin> set ''{}[]-,@+ ''"
  by (auto simp: is_digit_def digit_val_def)

end
