(* ===== verification/Profile.thy ===== *)
theory Profile
  imports Go_Strings
begin

text \<open>
  The call profile (\<^verbatim>\<open>src/profile/profile.go\<close>): the configuration record, the range-pattern
  language of the account, password, called-party and port lists (\<^verbatim>\<open>parseRangePattern\<close>) and
  \<^verbatim>\<open>ParseCallProfile\<close>, which decodes, expands and validates a profile. Reading the file and
  decoding JSON are the standard library's: they are arguments of the model.
\<close>

subsection \<open>Range patterns\<close>

datatype range_error =
    UnmatchedBraces
  | BadRepeat string atoi_error
  | UnmatchedBrackets
  | EmptyStartEnd
  | RedundantBrackets
  | TooManyDashes string
  | EmptyOrUnequal string string
  | BadStart string atoi_error
  | BadEnd string atoi_error
  | EndLessThanStart string string

text \<open>The \<^verbatim>\<open>{repeat}\<close> suffix: the rest of the part and the repeat text (\<^verbatim>\<open>"1"\<close> without one).\<close>

definition split_repeat :: "string \<Rightarrow> (range_error, string \<times> string) result" where
  [go_eval]: "split_repeat part =
     (if 1 \<le> length part \<and> last part = CHR ''}'' then
        (case index_byte part (CHR ''{'') of
           Some bhead \<Rightarrow> Inr (take bhead part, drop (bhead + 1) (take (length part - 1) part))
         | None \<Rightarrow> Inl UnmatchedBraces)
      else Inr (part, ''1''))"

text \<open>The repeat count and whether the special mode \<^verbatim>\<open>{@repeat}\<close> is on.\<close>

definition parse_repeat :: "string \<Rightarrow> (range_error, bool \<times> int) result" where
  [go_eval]: "parse_repeat rep =
     (let special = (rep \<noteq> [] \<and> rep ! 0 = CHR ''@'');
          digits = (if special then drop 1 rep else rep)
      in bind_result (wrap_error (BadRepeat digits) (atoi digits)) (\<lambda>n. Inr (special, n)))"

text \<open>\<^verbatim>\<open>prefix[core]suffix\<close> taken apart; a part without brackets is all core.\<close>

definition split_brackets :: "string \<Rightarrow> (range_error, string \<times> string \<times> string) result" where
  [go_eval]: "split_brackets part =
     (case (index_byte part (CHR ''[''), index_byte part (CHR '']'')) of
        (None, None) \<Rightarrow> Inr ([], part, [])
      | (Some sbhead, Some sbtail) \<Rightarrow>
          if sbhead < sbtail then
            Inr (take sbhead part, drop (sbhead + 1) (take sbtail part), drop (sbtail + 1) part)
          else Inl UnmatchedBrackets
      | _ \<Rightarrow> Inl UnmatchedBrackets)"

text \<open>The checks on the core and its split at the dash.\<close>

definition split_numbers :: "string \<Rightarrow> (range_error, string \<times> string) result" where
  [go_eval]: "split_numbers core =
     (if core = [] then Inl EmptyStartEnd
      else if index_byte core (CHR ''{'') \<noteq> None \<or> index_byte core (CHR ''}'') \<noteq> None \<or>
              index_byte core (CHR ''['') \<noteq> None \<or> index_byte core (CHR '']'') \<noteq> None
        then Inl RedundantBrackets
      else bind_result
        (case split_on (CHR ''-'') core of
           [a, b] \<Rightarrow> Inr (a, b)
         | [a] \<Rightarrow> Inr (a, a)
         | _ \<Rightarrow> Inl (TooManyDashes core))
        (\<lambda>(start, stop).
           if start = [] \<or> stop = [] \<or> length start \<noteq> length stop
           then Inl (EmptyOrUnequal start stop) else Inr (start, stop)))"

text \<open>The two bounds as numbers; they are only read when they differ.\<close>

definition parse_bounds :: "string \<Rightarrow> string \<Rightarrow> (range_error, int \<times> int) result" where
  [go_eval]: "parse_bounds start stop =
     (if start \<noteq> stop then
        bind_result (wrap_error (BadStart start) (atoi start)) (\<lambda>nstart.
        bind_result (wrap_error (BadEnd stop) (atoi stop)) (\<lambda>nend.
          if nend < nstart then Inl (EndLessThanStart stop start) else Inr (nstart, nend)))
      else Inr (0, 0))"

text \<open>
  The output loops. The loop bound \<open>nend - nstart + 1\<close> is a 64-bit addition; a negative repeat
  count runs no iteration (\<open>nat\<close> of a negative number is 0). \<open>nstart + j\<close> never exceeds \<open>nend\<close>.
\<close>

definition loop_count :: "int \<Rightarrow> int \<Rightarrow> nat" where
  [go_eval]: "loop_count nstart nend = nat (wrap64 (nend - nstart + 1))"

definition expand_part ::
  "bool \<Rightarrow> string \<Rightarrow> string \<Rightarrow> string \<Rightarrow> string \<Rightarrow> int \<Rightarrow> int \<Rightarrow> int \<Rightarrow> string list" where
  [go_eval]: "expand_part special pre start stop suf nstart nend nrepeat =
     (let item = (\<lambda>j. pre @ pad0 (length start) (nstart + int j) @ suf);
          fixed = pre @ start @ suf;
          count = loop_count nstart nend
      in if \<not> special then
           concat (replicate (nat nrepeat)
             (if start \<noteq> stop then map item [0..<count] else [fixed]))
         else if start \<noteq> stop then
           concat (map (\<lambda>i. replicate (nat nrepeat) (item i)) [0..<count])
         else replicate (nat nrepeat) fixed)"

definition parse_part :: "string \<Rightarrow> (range_error, string list) result" where
  [go_eval]: "parse_part part =
     bind_result (split_repeat part) (\<lambda>(part1, rep).
     bind_result (parse_repeat rep) (\<lambda>(special, nrepeat).
     bind_result (split_brackets part1) (\<lambda>(pre, core, suf).
     bind_result (split_numbers core) (\<lambda>(start, stop).
     bind_result (parse_bounds start stop) (\<lambda>(nstart, nend).
       Inr (expand_part special pre start stop suf nstart nend nrepeat))))))"

fun parse_parts :: "string list \<Rightarrow> (range_error, string list) result" where
  "parse_parts [] = Inr []"
| "parse_parts (p # ps) =
     bind_result (parse_part p) (\<lambda>xs. bind_result (parse_parts ps) (\<lambda>ys. Inr (xs @ ys)))"

definition parse_range_pattern :: "string \<Rightarrow> (range_error, string list) result" where
  [go_eval]: "parse_range_pattern rp = parse_parts (split_on (CHR '','') rp)"

lemmas range_phases =
  split_repeat_def parse_repeat_def split_brackets_def split_numbers_def parse_bounds_def

subsection \<open>What a successful part looks like\<close>

lemma split_numbers_free:
  assumes "split_numbers core = Inr (start, stop)"
  shows "start \<noteq> [] \<and> length start = length stop \<and> CHR ''-'' \<notin> set start \<and> CHR ''-'' \<notin> set stop"
proof -
  have free: "\<And>p. p \<in> set (split_on (CHR ''-'') core) \<Longrightarrow> CHR ''-'' \<notin> set p"
    by (rule split_on_items_free)
  show ?thesis
    using assms free
    by (auto simp: split_numbers_def bind_result_Inr_iff split: if_splits list.splits)
qed

lemma parse_bounds_fit:
  assumes "parse_bounds start stop = Inr (nstart, nend)" and "start \<noteq> stop"
    and "CHR ''-'' \<notin> set start" and "CHR ''-'' \<notin> set stop"
  shows "0 \<le> nstart \<and> nstart \<le> nend \<and> nend < 10 ^ length stop \<and> nend < 2 ^ 63"
  using assms atoi_fits [of start nstart] atoi_fits [of stop nend] atoi_range [of stop nend]
  by (auto simp: parse_bounds_def bind_result_Inr_iff split: if_splits)

lemma loop_count_le:
  assumes "0 \<le> nstart" and "nstart \<le> nend" and "nend < 2 ^ 63" and "j < loop_count nstart nend"
  shows "nstart + int j \<le> nend"
proof (cases "nend - nstart + 1 < 2 ^ 63")
  case True
  then show ?thesis using assms by (simp add: loop_count_def wrap64_id)
next
  case False
  then have "nend - nstart + 1 = 2 ^ 63" using assms by simp
  then have "loop_count nstart nend = 0" by (simp add: loop_count_def wrap64_def)
  then show ?thesis using assms by simp
qed

lemma parse_part_cases:
  assumes "parse_part part = Inr xs"
  obtains part1 rep special nrepeat pre core suf start stop nstart nend where
    "split_repeat part = Inr (part1, rep)" and "parse_repeat rep = Inr (special, nrepeat)"
    and "split_brackets part1 = Inr (pre, core, suf)" and "split_numbers core = Inr (start, stop)"
    and "parse_bounds start stop = Inr (nstart, nend)"
    and "xs = expand_part special pre start stop suf nstart nend nrepeat"
  using assms by (auto simp: parse_part_def bind_result_Inr_iff)

lemma set_expand_part:
  "set (expand_part special pre start stop suf nstart nend nrepeat) \<subseteq>
     (if start \<noteq> stop
      then (\<lambda>j. pre @ pad0 (length start) (nstart + int j) @ suf) ` {0..<loop_count nstart nend}
      else {pre @ start @ suf})"
  by (auto simp: expand_part_def Let_def split: if_splits)

lemma length_expand_part:
  "length (expand_part special pre start stop suf nstart nend nrepeat) =
     nat nrepeat * (if start \<noteq> stop then loop_count nstart nend else 1)"
  by (simp add: expand_part_def Let_def concat_replicate_length length_concat comp_def sum_list_triv sum_list_replicate)

lemma mset_expand_part:
  "mset (expand_part True pre start stop suf nstart nend nrepeat) =
   mset (expand_part False pre start stop suf nstart nend nrepeat)"
  unfolding expand_part_def Let_def
  by (simp only: mset_concat_replicate mset_concat_map_replicate if_True if_False not_True_eq_False
      not_False_eq_True split: if_split) simp

lemma expand_part_lengths:
  assumes "split_numbers core = Inr (start, stop)" and "parse_bounds start stop = Inr (nstart, nend)"
    and "x \<in> set (expand_part special pre start stop suf nstart nend nrepeat)"
  shows "length x = length pre + length start + length suf"
proof (cases "start = stop")
  case True
  then show ?thesis using assms(3) set_expand_part [of special pre start stop] by fastforce
next
  case False
  note nums = split_numbers_free [OF assms(1)]
  then have b: "0 \<le> nstart" "nstart \<le> nend" "nend < 10 ^ length stop" "nend < 2 ^ 63"
    using parse_bounds_fit [OF assms(2) False] by auto
  obtain j where j: "j < loop_count nstart nend"
    and x: "x = pre @ pad0 (length start) (nstart + int j) @ suf"
    using assms(3) set_expand_part [of special pre start stop suf nstart nend nrepeat] False by auto
  have "nstart + int j < 10 ^ length start" using loop_count_le [OF b(1,2,4) j] b(3) nums by simp
  then have "length (pad0 (length start) (nstart + int j)) = length start"
    using b(1) nums by (intro pad0_length) auto
  then show ?thesis by (simp add: x)
qed

subsection \<open>The phases on well-formed text\<close>

definition plain :: "string \<Rightarrow> bool" where
  "plain s = (\<forall>c \<in> set s. c \<notin> set '',{}[]'')"

lemma plainD: "plain s \<Longrightarrow> c \<in> set '',{}[]'' \<Longrightarrow> c \<notin> set s"
  unfolding plain_def by blast

text \<open>The text of a range pattern, as a user writes it: the printer the parser is compared with.\<close>

definition format_range :: "bool \<Rightarrow> string \<Rightarrow> nat \<Rightarrow> int \<Rightarrow> int \<Rightarrow> string \<Rightarrow> nat \<Rightarrow> string" where
  "format_range special pre w m n suf r =
     pre @ CHR ''['' # (pad0 w m @ CHR ''-'' # pad0 w n) @ CHR '']'' # suf @
     CHR ''{'' # ((if special then ''@'' else []) @ show_nat r) @ [CHR ''}'']"

lemma split_repeat_braced:
  "CHR ''{'' \<notin> set b \<Longrightarrow> split_repeat (b @ CHR ''{'' # r @ [CHR ''}'']) = Inr (b, r)"
  by (simp add: split_repeat_def)

lemma split_brackets_framed:
  assumes "plain pre" and "CHR '']'' \<notin> set core"
  shows "split_brackets (pre @ CHR ''['' # core @ CHR '']'' # suf) = Inr (pre, core, suf)"
proof -
  have free: "CHR ''['' \<notin> set pre" "CHR '']'' \<notin> set (pre @ CHR ''['' # core)"
    using assms by (auto simp: plain_def)
  have "index_byte ((pre @ CHR ''['' # core) @ CHR '']'' # suf) (CHR '']'') =
        Some (length (pre @ CHR ''['' # core))"
    by (rule index_byte_append_here [OF free(2)])
  then show ?thesis using free(1) by (simp add: split_brackets_def)
qed

lemma digits_free:
  "list_all is_digit s \<Longrightarrow> c \<in> set ''{}[]-,@+ '' \<Longrightarrow> c \<notin> set s"
  unfolding list_all_iff using digit_not_special by blast

lemma split_numbers_dashed:
  assumes "list_all is_digit a" and "list_all is_digit b" and "a \<noteq> []" and "length a = length b"
  shows "split_numbers (a @ CHR ''-'' # b) = Inr (a, b)"
proof -
  have free: "c \<notin> set a \<and> c \<notin> set b" if "c \<in> set ''{}[]-,@+ ''" for c
    using digits_free assms(1,2) that by blast
  have "split_on (CHR ''-'') (a @ CHR ''-'' # b) = [a, b]" using free by simp
  moreover have "b \<noteq> []" using assms(3,4) by auto
  ultimately show ?thesis using free assms(3,4) by (simp add: split_numbers_def)
qed

lemma parse_repeat_nat:
  assumes "r < 2 ^ 63"
  shows "parse_repeat ((if special then ''@'' else []) @ show_nat r) = Inr (special, int r)"
proof -
  have dig: "list_all is_digit (show_nat r)" by (rule show_nat_digits)
  have "atoi (show_nat r) = Inr (int r)"
    using atoi_digits [OF dig] parse_uint_show_nat [of r] assms by simp
  moreover have "show_nat r ! 0 \<in> set (show_nat r)" by (rule nth_mem) simp
  moreover have "CHR ''@'' \<notin> set (show_nat r)" by (rule digits_free [OF dig]) simp
  ultimately have "show_nat r ! 0 \<noteq> CHR ''@''" and "atoi (show_nat r) = Inr (int r)" by metis+
  then show ?thesis by (simp add: parse_repeat_def)
qed

lemma parse_bounds_padded:
  assumes "0 \<le> m" and "m < 2 ^ 63" and "0 \<le> n" and "n < 2 ^ 63"
  shows "parse_bounds (pad0 w m) (pad0 w n) =
    (if pad0 w m = pad0 w n then Inr (0, 0)
     else if n < m then Inl (EndLessThanStart (pad0 w n) (pad0 w m)) else Inr (m, n))"
proof -
  have "atoi (pad0 w m) = Inr m" and "atoi (pad0 w n) = Inr n"
    using assms by (auto intro: atoi_pad0)
  then show ?thesis unfolding parse_bounds_def by simp
qed

lemma pad0_inj: "0 \<le> m \<Longrightarrow> m < 2 ^ 63 \<Longrightarrow> 0 \<le> n \<Longrightarrow> n < 2 ^ 63 \<Longrightarrow> pad0 w m = pad0 w n \<Longrightarrow> m = n"
  by (metis atoi_pad0 sum.inject(2))

lemma parse_format_part:
  assumes "plain pre" and "plain suf" and "0 < w" and "0 \<le> m" and "m < 10 ^ w"
    and "0 \<le> n" and "n < 10 ^ w" and "r < 2 ^ 63"
  shows "parse_range_pattern (format_range special pre w m n suf r) =
    bind_result (parse_bounds (pad0 w m) (pad0 w n)) (\<lambda>(nstart, nend).
      Inr (expand_part special pre (pad0 w m) (pad0 w n) suf nstart nend (int r)))"
proof -
  let ?rep = "(if special then ''@'' else []) @ show_nat r"
  let ?core = "pad0 w m @ CHR ''-'' # pad0 w n"
  let ?body = "pre @ CHR ''['' # ?core @ CHR '']'' # suf"
  have dm: "list_all is_digit (pad0 w m)" and dn: "list_all is_digit (pad0 w n)"
    using assms by (auto intro: pad0_nonneg_digits)
  have len: "length (pad0 w m) = w" "length (pad0 w n) = w"
    using assms by (auto intro: pad0_length)
  have free: "c \<notin> set (pad0 w m) \<and> c \<notin> set (pad0 w n) \<and> c \<notin> set (show_nat r)"
    if "c \<in> set ''{}[]-,@+ ''" for c
    using digits_free dm dn show_nat_digits that by blast
  have comma: "CHR '','' \<notin> set (format_range special pre w m n suf r)"
    using plainD [OF assms(1), of "CHR '',''"] plainD [OF assms(2), of "CHR '',''"] free
    by (simp add: format_range_def)
  have brace: "CHR ''{'' \<notin> set ?body"
    using plainD [OF assms(1), of "CHR ''{''"] plainD [OF assms(2), of "CHR ''{''"] free by simp
  have one: "split_repeat (format_range special pre w m n suf r) = Inr (?body, ?rep)"
    using split_repeat_braced [OF brace, of ?rep] by (simp add: format_range_def)
  have core: "CHR '']'' \<notin> set ?core" using free by simp
  have two: "split_brackets (pre @ CHR ''['' # pad0 w m @ CHR ''-'' # pad0 w n @ CHR '']'' # suf) =
      Inr (pre, ?core, suf)"
    using split_brackets_framed [OF assms(1) core, of suf] by simp
  have three: "split_numbers ?core = Inr (pad0 w m, pad0 w n)"
    using dm dn len assms(3) by (intro split_numbers_dashed) auto
  show ?thesis
    using comma
    by (simp add: parse_range_pattern_def parse_part_def one two three
        parse_repeat_nat [OF assms(8)] bind_result_assoc case_prod_unfold)
qed

subsection \<open>Properties of the pattern language\<close>

lemma map_upt_upto:
  "m \<le> n \<Longrightarrow> map (\<lambda>j. f (m + int j)) [0..<nat (n - m + 1)] = map f [m..n]"
  by (rule nth_equalityI) auto

text \<open>
  C13. The expansion of a written range is the list of its numbers in order, each zero-padded to
  the width of the bounds and framed by prefix and suffix: \<^verbatim>\<open>{r}\<close> repeats the whole list \<open>r\<close>
  times, \<^verbatim>\<open>{@r}\<close> repeats each item \<open>r\<close> times in place.
\<close>

theorem range_pattern_expands:
  assumes "plain pre" and "plain suf" and "0 < w"
    and "0 \<le> m" and "m \<le> n" and "n < 10 ^ w" and "n < 2 ^ 63 - 1" and "r < 2 ^ 63"
  shows "parse_range_pattern (format_range special pre w m n suf r) =
    Inr (if special then concat (map (\<lambda>i. replicate r (pre @ pad0 w i @ suf)) [m..n])
         else concat (replicate r (map (\<lambda>i. pre @ pad0 w i @ suf) [m..n])))"
proof -
  have len: "length (pad0 w m) = w" using assms by (intro pad0_length) auto
  have cnt: "loop_count m n = nat (n - m + 1)" using assms by (simp add: loop_count_def wrap64_id)
  have bounds: "parse_bounds (pad0 w m) (pad0 w n) =
      (if pad0 w m = pad0 w n then Inr (0, 0)
       else if n < m then Inl (EndLessThanStart (pad0 w n) (pad0 w m)) else Inr (m, n))"
    using assms by (intro parse_bounds_padded) auto
  have parse: "parse_range_pattern (format_range special pre w m n suf r) =
      bind_result (parse_bounds (pad0 w m) (pad0 w n)) (\<lambda>(nstart, nend).
        Inr (expand_part special pre (pad0 w m) (pad0 w n) suf nstart nend (int r)))"
    using assms by (intro parse_format_part) auto
  show ?thesis
  proof (cases "m = n")
    case True
    then have "parse_bounds (pad0 w m) (pad0 w n) = Inr (0, 0)" using bounds by simp
    then show ?thesis unfolding parse using True by (simp add: expand_part_def)
  next
    case False
    then have "pad0 w m \<noteq> pad0 w n" using pad0_inj [of m n w] assms by auto
    then show ?thesis
      using assms(5) map_upt_upto [OF assms(5), of "\<lambda>i. pre @ pad0 w i @ suf"]
        map_upt_upto [OF assms(5), of "\<lambda>i. replicate r (pre @ pad0 w i @ suf)"]
      by (simp add: parse bounds expand_part_def len cnt)
  qed
qed

theorem range_pattern_expands_witness:
  "parse_range_pattern (format_range False ''10'' 2 (8::int) 10 ''x'' 2) =
   Inr [''1008x'', ''1009x'', ''1010x'', ''1008x'', ''1009x'', ''1010x'']"
proof -
  have p: "pad0 2 8 = ''08'' \<and> pad0 2 9 = ''09'' \<and> pad0 2 10 = ''10''"
    by (simp add: go_eval)
  have l: "[8..10::int] = [8, 9, 10]" by (simp add: upto.simps)
  have r: "replicate 2 xs = [xs, xs]" for xs :: "string list" by (simp add: numeral_2_eq_2)
  show ?thesis
    using range_pattern_expands [of "''10''" "''x''" 2 8 10 2 False] p l
    by (simp add: plain_def r)
qed

text \<open>
  C34. Every string one part of a pattern expands to has the same length: the numbers are padded
  to the width of the bounds, and no number between them needs more digits.
\<close>

theorem part_items_same_length:
  assumes "parse_part part = Inr xs" and "x \<in> set xs" and "y \<in> set xs"
  shows "length x = length y"
  using assms(1)
proof (rule parse_part_cases)
  fix part1 rep special nrepeat pre core suf start stop nstart nend
  assume a: "split_numbers core = Inr (start, stop)" "parse_bounds start stop = Inr (nstart, nend)"
    and xs: "xs = expand_part special pre start stop suf nstart nend nrepeat"
  have "length z = length pre + length start + length suf" if "z \<in> set xs" for z
    using expand_part_lengths [OF a] that unfolding xs by blast
  then show ?thesis using assms(2,3) by simp
qed

theorem part_items_same_length_witness:
  "parse_part ''u[08-10]'' = Inr [''u08'', ''u09'', ''u10''] \<and> length ''u08'' = length ''u10''"
proof -
  have e: "parse_part ''u[08-10]'' = Inr [''u08'', ''u09'', ''u10'']" by (simp add: go_eval)
  show ?thesis using e part_items_same_length [OF e, of "''u08''" "''u10''"] by simp
qed

text \<open>
  C33. The two repeat modes differ in order only: \<^verbatim>\<open>body{rep}\<close> and \<^verbatim>\<open>body{@rep}\<close> expand to the same
  multiset of strings, and one is accepted exactly when the other is.
\<close>

theorem repeat_modes_same_multiset:
  assumes "CHR ''{'' \<notin> set body" and "rep = [] \<or> hd rep \<noteq> CHR ''@''"
    and "parse_part (body @ CHR ''{'' # rep @ [CHR ''}'']) = Inr xs"
  shows "\<exists>ys. parse_part (body @ CHR ''{'' # (CHR ''@'' # rep) @ [CHR ''}'']) = Inr ys \<and> mset ys = mset xs"
proof -
  obtain special nrepeat pre core suf start stop nstart nend where
    pr: "parse_repeat rep = Inr (special, nrepeat)"
    and rest: "split_brackets body = Inr (pre, core, suf)" "split_numbers core = Inr (start, stop)"
      "parse_bounds start stop = Inr (nstart, nend)"
    and xs: "xs = expand_part special pre start stop suf nstart nend nrepeat"
    using assms(3) split_repeat_braced [OF assms(1), of rep] by (auto elim!: parse_part_cases)
  have special: "special = False" and "atoi rep = Inr nrepeat"
    using pr assms(2)
    by (auto simp: parse_repeat_def Let_def hd_conv_nth bind_result_Inr_iff split: if_splits)
  then have at: "parse_repeat (CHR ''@'' # rep) = Inr (True, nrepeat)" by (simp add: parse_repeat_def)
  have "parse_part (body @ CHR ''{'' # (CHR ''@'' # rep) @ [CHR ''}'']) =
      Inr (expand_part True pre start stop suf nstart nend nrepeat)"
    using split_repeat_braced [OF assms(1), of "CHR ''@'' # rep"] at rest by (simp add: parse_part_def)
  then show ?thesis using special by (simp add: xs mset_expand_part)
qed

theorem repeat_modes_same_multiset_witness:
  "\<exists>ys. parse_part ''1-2{@2}'' = Inr ys \<and> mset ys = mset [''1'', ''2'', ''1'', ''2'']"
proof -
  have "parse_part ''1-2{2}'' = Inr [''1'', ''2'', ''1'', ''2'']" by (simp add: go_eval)
  then show ?thesis using repeat_modes_same_multiset [of "''1-2''" "''2''"] by simp
qed

lemma parse_parts_append:
  "parse_parts (ps @ qs) =
     bind_result (parse_parts ps) (\<lambda>xs. bind_result (parse_parts qs) (\<lambda>ys. Inr (xs @ ys)))"
proof (induction ps)
  case Nil
  show ?case by (cases "parse_parts qs") auto
next
  case (Cons p ps)
  then show ?case by (cases "parse_part p"; cases "parse_parts ps"; cases "parse_parts qs") auto
qed

text \<open>
  C36. A comma composes patterns: the list of \<^verbatim>\<open>a,b\<close> is the list of \<^verbatim>\<open>a\<close> followed by the list of
  \<^verbatim>\<open>b\<close>, and the first pattern that is refused, from the left, decides the error.
\<close>

theorem pattern_comma_appends:
  "parse_range_pattern (a @ CHR '','' # b) =
     bind_result (parse_range_pattern a) (\<lambda>xs.
     bind_result (parse_range_pattern b) (\<lambda>ys. Inr (xs @ ys)))"
  by (simp add: parse_range_pattern_def split_on_append_sep parse_parts_append)

text \<open>C35. A descending range is refused with the two bounds in the error, whatever surrounds it.\<close>

theorem descending_range_refused:
  assumes "plain pre" and "plain suf" and "0 < w"
    and "0 \<le> n" and "n < m" and "m < 10 ^ w" and "m < 2 ^ 63" and "r < 2 ^ 63"
  shows "parse_range_pattern (format_range special pre w m n suf r) =
    Inl (EndLessThanStart (pad0 w n) (pad0 w m))"
proof -
  have "pad0 w m \<noteq> pad0 w n" using pad0_inj [of m n w] assms by auto
  then have "parse_bounds (pad0 w m) (pad0 w n) = Inl (EndLessThanStart (pad0 w n) (pad0 w m))"
    using assms by (subst parse_bounds_padded) auto
  moreover have "parse_range_pattern (format_range special pre w m n suf r) =
      bind_result (parse_bounds (pad0 w m) (pad0 w n)) (\<lambda>(nstart, nend).
        Inr (expand_part special pre (pad0 w m) (pad0 w n) suf nstart nend (int r)))"
    using assms by (intro parse_format_part) auto
  ultimately show ?thesis by simp
qed

theorem descending_range_refused_witness:
  "parse_range_pattern (format_range True ''a'' 1 9 (3::int) [] 1) = Inl (EndLessThanStart ''3'' ''9'')"
proof -
  have "pad0 1 3 = ''3'' \<and> pad0 1 9 = ''9''" by (simp add: go_eval)
  then show ?thesis
    using descending_range_refused [of "''a''" "[]" 1 3 9 1 True] by (simp add: plain_def)
qed

end
