(* ===== verification/Call_Profile.thy ===== *)
theory Call_Profile
  imports Profile
begin

text \<open>
  The configuration record \<^verbatim>\<open>CallProfile\<close> and \<^verbatim>\<open>ParseCallProfile\<close> of
  \<^verbatim>\<open>src/profile/profile.go\<close>. The two calls that leave the program, \<^verbatim>\<open>ioutil.ReadFile\<close> and
  \<^verbatim>\<open>json.Unmarshal\<close>, are the arguments \<open>read_file\<close> and \<open>unmarshal\<close>; as in the code, a decoding
  error is not looked at: \<open>unmarshal\<close> returns the record as far as it was filled.
\<close>

record call_profile =
  LogType :: string
  LogDir :: string
  CallDetailsInLog :: bool
  CallDetailsFile :: bool
  SdpInCallDetails :: bool
  LocalIP :: string
  LocalPorts :: string
  InternalLocalPorts :: "string list"
  Transport :: string
  ServerIP :: string
  ServerPort :: string
  ICEURLs :: string
  ICEUsername :: string
  ICECredential :: string
  Role :: string
  Accounts :: string
  InternalAccounts :: "string list"
  Passwords :: string
  InternalPasswords :: "string list"
  CalledParties :: string
  InternalCalledParties :: "string list"
  MaxConcurrentCalls :: int
  TotalCalls :: int
  CallDuration :: int
  CallsPerBatch :: int
  BatchInterval :: int
  MediaType :: string
  AudioFile :: string
  VideoFile :: string
  VideoFileFps :: int
  DumpMedia :: bool
  SavedAudioFile :: string
  SavedVideoFile :: string

text \<open>Go's zero value of the record, which \<^verbatim>\<open>main\<close> passes in.\<close>

definition zero_profile :: call_profile where
  "zero_profile = \<lparr> LogType = [], LogDir = [], CallDetailsInLog = False, CallDetailsFile = False,
     SdpInCallDetails = False, LocalIP = [], LocalPorts = [], InternalLocalPorts = [],
     Transport = [], ServerIP = [], ServerPort = [], ICEURLs = [], ICEUsername = [],
     ICECredential = [], Role = [], Accounts = [], InternalAccounts = [], Passwords = [],
     InternalPasswords = [], CalledParties = [], InternalCalledParties = [],
     MaxConcurrentCalls = 0, TotalCalls = 0, CallDuration = 0, CallsPerBatch = 0,
     BatchInterval = 0, MediaType = [], AudioFile = [], VideoFile = [], VideoFileFps = 0,
     DumpMedia = False, SavedAudioFile = [], SavedVideoFile = [] \<rparr>"

datatype 'io profile_error =
    ReadFailed 'io
  | UnknownLogtype string
  | AccountsError range_error
  | PasswordsError range_error
  | CalledPartiesError range_error
  | LocalPortsError range_error
  | UnequalLength nat nat nat nat
  | UnknownTransport string
  | UnknownRole string
  | TooManyConcurrent int nat
  | UnknownMediatype string

subsection \<open>The phases of ParseCallProfile\<close>

text \<open>Expanding the lists (lines 127 to 143); the called parties are a caller's only.\<close>

definition expand_lists :: "call_profile \<Rightarrow> ('io profile_error, call_profile) result" where
  "expand_lists cp =
     bind_result (wrap_error AccountsError (parse_range_pattern (Accounts cp))) (\<lambda>accounts.
     bind_result (wrap_error PasswordsError (parse_range_pattern (Passwords cp))) (\<lambda>passwords.
     bind_result
       (if Role cp = ''uac''
        then wrap_error CalledPartiesError (parse_range_pattern (CalledParties cp))
        else Inr (InternalCalledParties cp)) (\<lambda>called.
     let ports = (if LocalPorts cp = [] \<or> LocalPorts cp = ''0''
                  then ''0{'' @ show_int (int (length accounts)) @ ''}'' else LocalPorts cp)
     in bind_result (wrap_error LocalPortsError (parse_range_pattern ports)) (\<lambda>iports.
       Inr (cp\<lparr> InternalAccounts := accounts, InternalPasswords := passwords,
               InternalCalledParties := called, LocalPorts := ports,
               InternalLocalPorts := iports \<rparr>)))))"

text \<open>The checks and defaults after the lists (lines 144 to 176).\<close>

definition lengths_mismatch :: "call_profile \<Rightarrow> bool" where
  "lengths_mismatch cp =
     (length (InternalAccounts cp) = 0
      \<or> length (InternalAccounts cp) > length (InternalPasswords cp)
      \<or> (Role cp = ''uac'' \<and> length (InternalAccounts cp) > length (InternalCalledParties cp))
      \<or> length (InternalAccounts cp) > length (InternalLocalPorts cp))"

definition known_transport :: "string \<Rightarrow> bool" where
  "known_transport t = (t = ''udp'' \<or> t = ''tcp'' \<or> t = ''tls'' \<or> t = ''ws'' \<or> t = ''wss'')"

definition default_concurrency :: "call_profile \<Rightarrow> call_profile" where
  "default_concurrency cp =
     (if MaxConcurrentCalls cp \<le> 0
      then cp\<lparr> MaxConcurrentCalls := int (length (InternalAccounts cp)) \<rparr> else cp)"

definition cap_concurrency :: "call_profile \<Rightarrow> call_profile" where
  "cap_concurrency cp =
     (if 0 < TotalCalls cp \<and> TotalCalls cp < MaxConcurrentCalls cp
      then cp\<lparr> MaxConcurrentCalls := TotalCalls cp \<rparr> else cp)"

definition default_fps :: "call_profile \<Rightarrow> call_profile" where
  "default_fps cp = (if VideoFileFps cp \<le> 0 then cp\<lparr> VideoFileFps := 15 \<rparr> else cp)"

definition check_profile :: "call_profile \<Rightarrow> ('io profile_error, call_profile) result" where
  "check_profile cp =
     (if lengths_mismatch cp then
        Inl (UnequalLength (length (InternalLocalPorts cp)) (length (InternalAccounts cp))
               (length (InternalPasswords cp)) (length (InternalCalledParties cp)))
      else if \<not> known_transport (Transport cp) then Inl (UnknownTransport (Transport cp))
      else if Role cp \<noteq> ''uac'' \<and> Role cp \<noteq> ''uas'' then Inl (UnknownRole (Role cp))
      else let cp1 = default_concurrency cp in
        if int (length (InternalAccounts cp1)) < MaxConcurrentCalls cp1 then
          Inl (TooManyConcurrent (MaxConcurrentCalls cp1) (length (InternalAccounts cp1)))
        else let cp2 = cap_concurrency cp1 in
          if Role cp2 = ''uac'' \<and> MediaType cp2 \<noteq> ''audio'' \<and> MediaType cp2 \<noteq> ''video'' then
            Inl (UnknownMediatype (MediaType cp2))
          else Inr (default_fps cp2))"

definition parse_call_profile ::
  "(string \<Rightarrow> ('io, string) result) \<Rightarrow> (string \<Rightarrow> call_profile \<Rightarrow> call_profile) \<Rightarrow>
   string \<Rightarrow> call_profile \<Rightarrow> ('io profile_error, call_profile) result" where
  "parse_call_profile read_file unmarshal filename cp0 =
     bind_result (wrap_error ReadFailed (read_file filename)) (\<lambda>jsonbytes.
     let cp = unmarshal jsonbytes cp0 in
     if LogType cp \<noteq> ''file'' \<and> LogType cp \<noteq> ''console'' then Inl (UnknownLogtype (LogType cp))
     else bind_result (expand_lists cp) check_profile)"

lemmas profile_check_defs = check_profile_def lengths_mismatch_def default_concurrency_def
  cap_concurrency_def default_fps_def

subsection \<open>What an accepted profile promises the rest of the program\<close>

definition valid_profile :: "call_profile \<Rightarrow> bool" where
  "valid_profile cp =
     ((LogType cp = ''file'' \<or> LogType cp = ''console'') \<and>
      known_transport (Transport cp) \<and>
      (Role cp = ''uac'' \<or> Role cp = ''uas'') \<and>
      (Role cp = ''uac'' \<longrightarrow> MediaType cp = ''audio'' \<or> MediaType cp = ''video'') \<and>
      1 \<le> MaxConcurrentCalls cp \<and>
      MaxConcurrentCalls cp \<le> int (length (InternalAccounts cp)) \<and>
      length (InternalAccounts cp) \<le> length (InternalPasswords cp) \<and>
      length (InternalAccounts cp) \<le> length (InternalLocalPorts cp) \<and>
      (Role cp = ''uac'' \<longrightarrow> length (InternalAccounts cp) \<le> length (InternalCalledParties cp)) \<and>
      (0 < TotalCalls cp \<longrightarrow> MaxConcurrentCalls cp \<le> TotalCalls cp) \<and>
      0 < VideoFileFps cp)"

lemma expand_lists_frame:
  "expand_lists cp = Inr cp' \<Longrightarrow>
     LogType cp' = LogType cp \<and> Role cp' = Role cp \<and> MaxConcurrentCalls cp' = MaxConcurrentCalls cp \<and>
     TotalCalls cp' = TotalCalls cp"
  by (auto simp: expand_lists_def bind_result_Inr_iff Let_def split: if_splits)

lemma check_profile_frame:
  "check_profile cp = Inr cp' \<Longrightarrow>
     LogType cp' = LogType cp \<and> InternalAccounts cp' = InternalAccounts cp \<and>
     InternalLocalPorts cp' = InternalLocalPorts cp"
  by (auto simp: profile_check_defs Let_def split: if_splits)

lemma default_concurrency_frame [simp]:
  "LogType (default_concurrency cp) = LogType cp"
  "InternalLocalPorts (default_concurrency cp) = InternalLocalPorts cp"
  "Transport (default_concurrency cp) = Transport cp"
  "Role (default_concurrency cp) = Role cp"
  "InternalAccounts (default_concurrency cp) = InternalAccounts cp"
  "InternalPasswords (default_concurrency cp) = InternalPasswords cp"
  "InternalCalledParties (default_concurrency cp) = InternalCalledParties cp"
  "TotalCalls (default_concurrency cp) = TotalCalls cp"
  "MediaType (default_concurrency cp) = MediaType cp"
  "VideoFileFps (default_concurrency cp) = VideoFileFps cp"
  by (simp_all add: default_concurrency_def)

lemma cap_concurrency_frame [simp]:
  "LogType (cap_concurrency cp) = LogType cp"
  "InternalLocalPorts (cap_concurrency cp) = InternalLocalPorts cp"
  "Transport (cap_concurrency cp) = Transport cp"
  "Role (cap_concurrency cp) = Role cp"
  "InternalAccounts (cap_concurrency cp) = InternalAccounts cp"
  "InternalPasswords (cap_concurrency cp) = InternalPasswords cp"
  "InternalCalledParties (cap_concurrency cp) = InternalCalledParties cp"
  "TotalCalls (cap_concurrency cp) = TotalCalls cp"
  "MediaType (cap_concurrency cp) = MediaType cp"
  "VideoFileFps (cap_concurrency cp) = VideoFileFps cp"
  by (simp_all add: cap_concurrency_def)

lemma default_fps_frame [simp]:
  "LogType (default_fps cp) = LogType cp"
  "InternalLocalPorts (default_fps cp) = InternalLocalPorts cp"
  "Transport (default_fps cp) = Transport cp"
  "Role (default_fps cp) = Role cp"
  "InternalAccounts (default_fps cp) = InternalAccounts cp"
  "InternalPasswords (default_fps cp) = InternalPasswords cp"
  "InternalCalledParties (default_fps cp) = InternalCalledParties cp"
  "TotalCalls (default_fps cp) = TotalCalls cp"
  "MediaType (default_fps cp) = MediaType cp"
  "MaxConcurrentCalls (default_fps cp) = MaxConcurrentCalls cp"
  by (simp_all add: default_fps_def)

lemma check_profile_InrD:
  assumes "check_profile cp = Inr cp'"
  shows "\<not> lengths_mismatch cp" and "known_transport (Transport cp)"
    and "Role cp = ''uac'' \<or> Role cp = ''uas''"
    and "MaxConcurrentCalls (default_concurrency cp) \<le> int (length (InternalAccounts cp))"
    and "Role cp = ''uac'' \<Longrightarrow> MediaType cp = ''audio'' \<or> MediaType cp = ''video''"
    and "cp' = default_fps (cap_concurrency (default_concurrency cp))"
  using assms unfolding check_profile_def Let_def by (simp_all split: if_splits)

lemma capped_concurrency:
  assumes "\<not> lengths_mismatch cp"
    and "MaxConcurrentCalls (default_concurrency cp) \<le> int (length (InternalAccounts cp))"
  shows "1 \<le> MaxConcurrentCalls (cap_concurrency (default_concurrency cp)) \<and>
    MaxConcurrentCalls (cap_concurrency (default_concurrency cp)) \<le> int (length (InternalAccounts cp)) \<and>
    (0 < TotalCalls cp \<longrightarrow> MaxConcurrentCalls (cap_concurrency (default_concurrency cp)) \<le> TotalCalls cp)"
proof -
  have "1 \<le> int (length (InternalAccounts cp))"
    using assms(1) by (cases "InternalAccounts cp") (auto simp: lengths_mismatch_def)
  then show ?thesis
    using assms(2) by (auto simp: cap_concurrency_def default_concurrency_def split: if_splits)
qed

lemma check_profile_valid:
  assumes "check_profile cp = Inr cp'" and "LogType cp = ''file'' \<or> LogType cp = ''console''"
  shows "valid_profile cp'"
proof -
  note ok = check_profile_InrD [OF assms(1)]
  have "0 < VideoFileFps (default_fps cp1)" for cp1 by (simp add: default_fps_def)
  then show ?thesis
    using ok(2,3,5) assms(2) capped_concurrency [OF ok(1,4)] ok(1)
    unfolding valid_profile_def ok(6) by (simp add: lengths_mismatch_def not_less)
qed

lemma parse_call_profile_InrE:
  fixes read_file :: "string \<Rightarrow> ('io, string) result"
  assumes "parse_call_profile read_file unmarshal filename cp0 = Inr cp'"
  obtains json cp where "read_file filename = Inr json"
    and "LogType (unmarshal json cp0) = ''file'' \<or> LogType (unmarshal json cp0) = ''console''"
    and "expand_lists (unmarshal json cp0) = (Inr cp :: ('io profile_error, call_profile) result)"
    and "check_profile cp = (Inr cp' :: ('io profile_error, call_profile) result)"
  using assms
  by (auto simp: parse_call_profile_def bind_result_Inr_iff Let_def split: if_splits)

lemma parsed_profile_valid:
  fixes read_file :: "string \<Rightarrow> ('io, string) result"
  assumes "parse_call_profile read_file unmarshal filename cp0 = Inr cp"
  shows "valid_profile cp"
  using assms
proof (rule parse_call_profile_InrE)
  fix json cp1
  assume l: "LogType (unmarshal json cp0) = ''file'' \<or> LogType (unmarshal json cp0) = ''console''"
    and x: "expand_lists (unmarshal json cp0) = (Inr cp1 :: ('io profile_error, call_profile) result)"
    and c: "check_profile cp1 = (Inr cp :: ('io profile_error, call_profile) result)"
  show "valid_profile cp" using check_profile_valid [OF c] expand_lists_frame [OF x] l by simp
qed

text \<open>
  C12. A profile \<^verbatim>\<open>ParseCallProfile\<close> accepts satisfies every assumption the callers make: known
  log type, transport, role and media type; between one and \<^verbatim>\<open>len(accounts)\<close> concurrent calls, and
  no more than the total; a password, a port and (for a caller) a called party for every account;
  a positive frame rate.
\<close>

theorem accepted_profile_valid:
  fixes read_file :: "string \<Rightarrow> ('io, string) result"
  assumes "parse_call_profile read_file unmarshal filename cp0 = Inr cp"
  shows "valid_profile cp"
  using assms by (rule parsed_profile_valid)

definition sample_profile :: call_profile where
  "sample_profile = zero_profile\<lparr> LogType := ''console'', Transport := ''wss'', Role := ''uac'',
     MediaType := ''audio'', Accounts := ''1[00-02]'', Passwords := ''pw{3}'',
     CalledParties := ''2[00-02]'', TotalCalls := 2, CallsPerBatch := 1 \<rparr>"

definition sample_parsed :: call_profile where
  "sample_parsed = sample_profile\<lparr> InternalAccounts := [''100'', ''101'', ''102''],
     InternalPasswords := [''pw'', ''pw'', ''pw''], InternalCalledParties := [''200'', ''201'', ''202''],
     LocalPorts := ''0{3}'', InternalLocalPorts := [''0'', ''0'', ''0''],
     MaxConcurrentCalls := 2, VideoFileFps := 15 \<rparr>"

lemma sample_profile_parses:
  "parse_call_profile (\<lambda>f. Inr f) (\<lambda>_ _. sample_profile) ''uac.json'' zero_profile =
   (Inr sample_parsed :: (unit profile_error, call_profile) result)"
proof -
  have p: "parse_range_pattern ''1[00-02]'' = Inr [''100'', ''101'', ''102'']"
      "parse_range_pattern ''pw{3}'' = Inr [''pw'', ''pw'', ''pw'']"
      "parse_range_pattern ''2[00-02]'' = Inr [''200'', ''201'', ''202'']"
      "parse_range_pattern ''0{3}'' = Inr [''0'', ''0'', ''0'']"
    by (simp_all add: go_eval)
  have s: "show_int 3 = ''3''" by (simp add: go_eval)
  show ?thesis
    by (simp add: parse_call_profile_def expand_lists_def sample_parsed_def sample_profile_def zero_profile_def p s
        profile_check_defs known_transport_def Let_def)
qed

theorem accepted_profile_valid_witness:
  "parse_call_profile (\<lambda>f. Inr f) (\<lambda>_ _. sample_profile) ''uac.json'' zero_profile =
     (Inr sample_parsed :: (unit profile_error, call_profile) result) \<and> valid_profile sample_parsed"
  using sample_profile_parses accepted_profile_valid [OF sample_profile_parses] by blast

text \<open>
  C37. The number of concurrent calls of an accepted profile is exactly the documented one: the
  configured number, or the number of accounts when it is not positive, cut to the total number
  of calls when there is a smaller one.
\<close>

theorem concurrency_of_accepted_profile:
  fixes read_file :: "string \<Rightarrow> ('io, string) result"
  assumes "parse_call_profile read_file unmarshal filename cp0 = Inr cp"
    and "read_file filename = Inr json"
  shows "MaxConcurrentCalls cp =
    (let wanted = MaxConcurrentCalls (unmarshal json cp0);
         m = (if wanted \<le> 0 then int (length (InternalAccounts cp)) else wanted);
         total = TotalCalls (unmarshal json cp0)
     in if 0 < total \<and> total < m then total else m)"
  using assms(1)
proof (rule parse_call_profile_InrE)
  fix json' cp1
  assume r: "read_file filename = Inr json'"
    and x: "expand_lists (unmarshal json' cp0) = (Inr cp1 :: ('io profile_error, call_profile) result)"
    and c: "check_profile cp1 = (Inr cp :: ('io profile_error, call_profile) result)"
  have "json' = json" using r assms(2) by simp
  then show ?thesis
    using expand_lists_frame [OF x] c
    by (auto simp: profile_check_defs Let_def split: if_splits)
qed

theorem concurrency_of_accepted_profile_witness:
  "parse_call_profile (\<lambda>f. Inr f) (\<lambda>_ _. sample_profile) ''uac.json'' zero_profile =
     (Inr sample_parsed :: (unit profile_error, call_profile) result) \<and>
   MaxConcurrentCalls sample_parsed = 2"
proof -
  have fields: "length (InternalAccounts sample_parsed) = 3" "TotalCalls sample_profile = 2"
      "MaxConcurrentCalls sample_profile = 0"
    by (simp_all add: sample_parsed_def sample_profile_def zero_profile_def)
  show ?thesis
    using sample_profile_parses concurrency_of_accepted_profile [OF sample_profile_parses refl]
    by (simp add: fields)
qed

lemma default_ports_expand:
  assumes "n < 2 ^ 63"
  shows "parse_range_pattern (''0{'' @ show_int (int n) @ ''}'') = Inr (replicate n ''0'')"
proof -
  have dig: "list_all is_digit (show_nat n)" by (rule show_nat_digits)
  have free: "c \<notin> set (show_nat n)" if "c \<in> set ''{}[]-,@+ ''" for c
    using digits_free [OF dig that] .
  have rep: "parse_repeat (show_nat n) = Inr (False, int n)"
    using parse_repeat_nat [of n False] assms by simp
  have split: "split_repeat (CHR ''0'' # CHR ''{'' # show_nat n @ [CHR ''}'']) = Inr (''0'', show_nat n)"
    using split_repeat_braced [of "''0''" "show_nat n"] by simp
  show ?thesis
    using free split rep
    by (simp add: parse_range_pattern_def show_int_def parse_part_def split_brackets_def
        split_numbers_def parse_bounds_def expand_part_def)
qed

text \<open>Without configured ports every account gets port 0, that is, a free port of its own.\<close>

theorem default_ports:
  fixes read_file :: "string \<Rightarrow> ('io, string) result"
  assumes "parse_call_profile read_file unmarshal filename cp0 = Inr cp"
    and "read_file filename = Inr json"
    and "LocalPorts (unmarshal json cp0) \<in> {'''', ''0''}"
    and "length (InternalAccounts cp) < 2 ^ 63"
  shows "InternalLocalPorts cp = replicate (length (InternalAccounts cp)) ''0''"
  using assms(1)
proof (rule parse_call_profile_InrE)
  fix json' cp1
  assume r: "read_file filename = Inr json'"
    and x: "expand_lists (unmarshal json' cp0) = (Inr cp1 :: ('io profile_error, call_profile) result)"
    and c: "check_profile cp1 = (Inr cp :: ('io profile_error, call_profile) result)"
  have eq: "json' = json" using r assms(2) by simp
  have fr: "InternalAccounts cp = InternalAccounts cp1" "InternalLocalPorts cp = InternalLocalPorts cp1"
    using check_profile_frame [OF c] by auto
  have "parse_range_pattern (''0{'' @ show_int (int (length (InternalAccounts cp1))) @ ''}'') =
      Inr (InternalLocalPorts cp1)"
    using x assms(3) unfolding eq expand_lists_def
    by (auto simp: bind_result_Inr_iff Let_def split: if_splits)
  then show ?thesis using default_ports_expand assms(4) fr by simp
qed

theorem default_ports_witness:
  "parse_call_profile (\<lambda>f. Inr f) (\<lambda>_ _. sample_profile) ''uac.json'' zero_profile =
     (Inr sample_parsed :: (unit profile_error, call_profile) result) \<and>
   InternalLocalPorts sample_parsed = replicate 3 ''0''"
proof -
  have fields: "length (InternalAccounts sample_parsed) = 3" "LocalPorts sample_profile = []"
    by (simp_all add: sample_parsed_def sample_profile_def zero_profile_def)
  show ?thesis
    using sample_profile_parses default_ports [OF sample_profile_parses refl] by (simp add: fields)
qed

end
