(* ===== verification/Sdp.thy ===== *)
theory Sdp
  imports Go_Strings
begin

text \<open>
  The edits of session descriptions: the three line functions of \<^verbatim>\<open>src/rtc/util.go\<close>
  (\<^verbatim>\<open>getNthItemInALineOfSDP\<close>, \<^verbatim>\<open>replaceNthItemInALineOfSDP\<close>, \<^verbatim>\<open>removeNthLineOfSDP\<close>) and the
  edits \<^verbatim>\<open>MediaFunc\<close> (\<^verbatim>\<open>src/rtc/media.go\<close>) makes with them: preferring the video section of a remote
  description, the two attribute lines it appends, and the rewriting of a local description for a
  TURN relay.
\<close>

definition crlf :: string where
  "crlf = [CHR 0x0D, CHR 0x0A]"

subsection \<open>The line functions\<close>

text \<open>The first occurrence of the prefix and the length of the text up to the line break.\<close>

definition find_line :: "string \<Rightarrow> string \<Rightarrow> (nat \<times> nat) option" where
  "find_line s linePrefix =
     (case index_of s linePrefix of
        None \<Rightarrow> None
      | Some subIndex \<Rightarrow>
          (case index_of (drop subIndex s) crlf of
             None \<Rightarrow> None
           | Some linefeedIndex \<Rightarrow> Some (subIndex, linefeedIndex)))"

definition get_nth_item :: "string \<Rightarrow> string \<Rightarrow> int \<Rightarrow> string outcome" where
  "get_nth_item s linePrefix n =
     (case find_line s linePrefix of
        None \<Rightarrow> Returns []
      | Some (subIndex, linefeedIndex) \<Rightarrow>
          let items = split_on (CHR '' '') (take linefeedIndex (drop subIndex s)) in
          if int (length items) < n then Returns []
          else if n - 1 < 0 then Panics
          else Returns (items ! nat (n - 1)))"

text \<open>The loop that writes the items back, the \<open>n\<close>-th replaced, with spaces between them.\<close>

fun write_items :: "int \<Rightarrow> int \<Rightarrow> string \<Rightarrow> string list \<Rightarrow> string" where
  "write_items i n new [] = []"
| "write_items i n new (x # xs) =
     (if i + 1 = n then new else x) @ (if xs = [] then [] else '' '') @ write_items (i + 1) n new xs"

definition replace_nth_item :: "string \<Rightarrow> string \<Rightarrow> int \<Rightarrow> string \<Rightarrow> string" where
  "replace_nth_item s linePrefix n new =
     (case find_line s linePrefix of
        None \<Rightarrow> s
      | Some (subIndex, linefeedIndex) \<Rightarrow>
          let items = split_on (CHR '' '') (take linefeedIndex (drop subIndex s)) in
          if int (length items) < n then s
          else take subIndex s @ write_items 0 n new items @ drop (subIndex + linefeedIndex) s)"

text \<open>The search loop of \<^verbatim>\<open>removeNthLineOfSDP\<close>: \<open>k\<close> iterations are left; \<open>cur\<close>, \<open>sub\<close> its variables.\<close>

fun nth_match :: "string \<Rightarrow> string \<Rightarrow> nat \<Rightarrow> nat \<Rightarrow> nat \<Rightarrow> (nat \<times> nat) option" where
  "nth_match s linePrefix 0 cur sub = Some (cur, sub)"
| "nth_match s linePrefix (Suc k) cur sub =
     (case index_of (drop cur s) linePrefix of
        None \<Rightarrow> None
      | Some i \<Rightarrow> nth_match s linePrefix k (if k \<noteq> 0 then cur + i + length linePrefix else cur) i)"

definition remove_nth_line :: "string \<Rightarrow> string \<Rightarrow> int \<Rightarrow> string" where
  "remove_nth_line s linePrefix n =
     (case nth_match s linePrefix (nat n) 0 0 of
        None \<Rightarrow> s
      | Some (cur, sub) \<Rightarrow>
          (case index_of (drop (cur + sub) s) crlf of
             None \<Rightarrow> s
           | Some linefeedIndex \<Rightarrow> take (cur + sub) s @ drop (cur + sub + linefeedIndex + 2) s))"

subsection \<open>The edits of MediaFunc\<close>

text \<open>
  A remote description with a video section loses its audio section (offer: lines 85 to 99,
  answer: lines 622 to 634 of \<^verbatim>\<open>media.go\<close>), then two attribute lines are appended.
\<close>

definition prefer_video :: "string \<Rightarrow> string" where
  "prefer_video sdp =
     (case index_of sdp ''m=video'' of
        None \<Rightarrow> sdp
      | Some videoStart \<Rightarrow>
          (case index_of sdp ''m=audio'' of
             None \<Rightarrow> sdp
           | Some audioStart \<Rightarrow>
               if audioStart < videoStart then take audioStart sdp @ drop videoStart sdp
               else take audioStart sdp))"

definition append_attributes :: "string \<Rightarrow> string" where
  "append_attributes sdp = (sdp @ ''a=sendrecv'' @ crlf) @ ''a=mid:0'' @ crlf"

definition edit_remote_sdp :: "string \<Rightarrow> string" where
  "edit_remote_sdp sdp = append_attributes (prefer_video sdp)"

text \<open>The rewriting of the local description when ICE servers are configured (only for TURN).\<close>

definition rewrite_for_relay :: "string \<Rightarrow> string outcome" where
  "rewrite_for_relay newsdp =
     (case get_nth_item newsdp ''a=candidate'' 5 of
        Panics \<Rightarrow> Panics
      | Returns relayip \<Rightarrow>
          (case get_nth_item newsdp ''a=candidate'' 6 of
             Panics \<Rightarrow> Panics
           | Returns relayport \<Rightarrow>
               let s1 = replace_nth_item newsdp ''c=IN'' 3 relayip;
                   s2 = replace_nth_item s1 ''m=video'' 2 relayport
               in Returns (replace_nth_item s2 ''m=audio'' 2 relayport)))"

definition local_sdp :: "string \<Rightarrow> string \<Rightarrow> string outcome" where
  "local_sdp iceURLs newsdp = (if iceURLs \<noteq> [] then rewrite_for_relay newsdp else Returns newsdp)"

text \<open>The items asked for are numbered from one, so no index is out of range.\<close>

lemma get_nth_item_returns: "1 \<le> n \<Longrightarrow> \<exists>x. get_nth_item s linePrefix n = Returns x"
  by (simp add: get_nth_item_def Let_def split: option.split)

lemma local_sdp_returns: "local_sdp iceURLs s \<noteq> Panics"
  using get_nth_item_returns [of 5 s "''a=candidate''"] get_nth_item_returns [of 6 s "''a=candidate''"]
  by (auto simp: local_sdp_def rewrite_for_relay_def Let_def)

subsection \<open>Lines and items\<close>

fun no_crlf :: "string \<Rightarrow> bool" where
  "no_crlf (x # y # zs) = (\<not> (x = CHR 0x0D \<and> y = CHR 0x0A) \<and> no_crlf (y # zs))"
| "no_crlf _ = True"

lemma no_crlf_space: "no_crlf (p @ CHR '' '' # q) \<longleftrightarrow> no_crlf p \<and> no_crlf q"
  by (induction p rule: no_crlf.induct) (cases q; auto)+

lemma no_crlf_join: "no_crlf (join_with '' '' ps) \<longleftrightarrow> list_all no_crlf ps"
  by (induction "'' ''" ps rule: join_with.induct) (auto simp: no_crlf_space)

lemma index_of_crlf: "no_crlf line \<longleftrightarrow> index_of (line @ crlf @ rest) crlf = Some (length line)"
proof (induction line rule: no_crlf.induct)
  case (1 x y zs)
  then show ?case by (auto simp: index_of_Cons crlf_def)
qed (auto simp: index_of_Cons crlf_def)

lemma index_of_crlf_split:
  "index_of s crlf = Some lf \<Longrightarrow> \<exists>rest. s = take lf s @ crlf @ rest \<and> no_crlf (take lf s) \<and> lf \<le> length s"
proof -
  assume i: "index_of s crlf = Some lf"
  then obtain rest where d: "drop lf s = crlf @ rest" using index_of_SomeD [OF i] by (auto simp: prefix_def)
  moreover have le: "lf \<le> length s" using index_of_SomeD [OF i] by simp
  ultimately have s: "s = take lf s @ crlf @ rest" by (metis append_take_drop_id)
  moreover have "length (take lf s) = lf" using le by simp
  ultimately have "no_crlf (take lf s)" using i index_of_crlf [of "take lf s" rest] by metis
  then show ?thesis using s le by blast
qed

lemma write_items_other: "n \<le> i \<Longrightarrow> write_items i n new xs = join_with '' '' xs"
  by (induction xs arbitrary: i) (auto simp: neq_Nil_conv)

lemma write_items_join:
  "i < n \<Longrightarrow> write_items i n new xs = join_with '' '' (xs[nat (n - i - 1) := new])"
proof (induction xs arbitrary: i)
  case Nil
  then show ?case by simp
next
  case (Cons x xs)
  show ?case
  proof (cases "i + 1 = n")
    case True
    then show ?thesis using write_items_other [of n "i + 1" new xs] by (cases xs) auto
  next
    case False
    then have "nat (n - i - 1) = Suc (nat (n - (i + 1) - 1))" using Cons.prems by simp
    moreover have "i + 1 < n" using False Cons.prems by simp
    ultimately show ?thesis
      using Cons.IH [of "i + 1"] False by (cases "xs = []") (auto simp: join_with_Cons)
  qed
qed

text \<open>Whether the prefix occurs at a place before the line does not depend on the line's rest.\<close>

lemma earlier_match:
  fixes p :: string
  assumes "prefix p x" and "prefix p y" and "k \<le> length a"
  shows "prefix p (drop k (a @ x)) \<longleftrightarrow> prefix p (drop k (a @ y))"
proof -
  obtain x' y' where xy: "x = p @ x'" "y = p @ y'" using assms by (auto simp: prefix_def)
  have "prefix p (z @ w) \<longleftrightarrow> prefix p z" if "length p \<le> length z" for z w :: string
    using that by (metis append_eq_append_conv_if prefix_def prefix_prefix append_take_drop_id)
  moreover have "length p \<le> length (drop k (a @ p))" using assms(3) by simp
  moreover have "drop k (a @ p @ w) = drop k (a @ p) @ w" for w using assms(3) by simp
  ultimately show ?thesis unfolding xy by metis
qed

text \<open>A line found by its prefix, and its text put back in another line with the same prefix.\<close>

lemma find_line_split:
  assumes "find_line s p = Some (i, lf)" and "CHR 0x0D \<notin> set p"
  obtains a line b where "s = a @ line @ crlf @ b" and "i = length a" and "lf = length line"
    and "no_crlf line" and "prefix p line"
    and "\<forall>k < length a. \<not> prefix p (drop k (a @ line @ crlf @ b))"
proof -
  have i: "index_of s p = Some i" and l: "index_of (drop i s) crlf = Some lf"
    using assms(1) by (auto simp: find_line_def split: option.splits)
  obtain b where b: "drop i s = take lf (drop i s) @ crlf @ b"
    and line: "no_crlf (take lf (drop i s))" and lf: "lf \<le> length (drop i s)"
    using index_of_crlf_split [OF l] by blast
  have pre: "prefix p (drop i s)" and le: "i \<le> length s" using index_of_SomeD [OF i] by auto
  have "prefix p (take lf (drop i s))"
  proof (cases "length p \<le> lf")
    case True
    then show ?thesis using pre by (metis prefix_def append_take_drop_id append_eq_append_conv_if
          take_all_iff take_append take_take min_absorb2 prefixI)
  next
    case False
    then have "p ! lf = drop i s ! lf" using pre by (auto simp: prefix_def nth_append)
    also have "\<dots> = CHR 0x0D" using b lf by (metis crlf_def append_Cons length_take min_absorb2 nth_append_length)
    finally show ?thesis using False assms(2) by (metis not_le nth_mem)
  qed
  moreover have s: "s = take i s @ take lf (drop i s) @ crlf @ b" using b by (metis append_take_drop_id)
  ultimately show thesis
    using that [of "take i s" "take lf (drop i s)" b] le lf line index_of_least [OF i] by auto
qed

lemma find_line_join:
  assumes "no_crlf line" and "prefix p line"
    and "\<forall>k < length a. \<not> prefix p (drop k (a @ line @ crlf @ b))"
  shows "find_line (a @ line @ crlf @ b) p = Some (length a, length line)"
proof -
  have "prefix p (line @ crlf @ b)" using assms(2) by (metis prefix_prefix)
  then have "index_of (line @ crlf @ b) p = Some 0" by (subst index_of.simps) simp
  then have "index_of (a @ line @ crlf @ b) p = Some (length a)"
    using index_of_append_None [OF assms(3)] by simp
  then show ?thesis using assms(1) index_of_crlf [of line b] by (simp add: find_line_def)
qed

subsection \<open>Properties of the edits\<close>

lemma first_item_prefix:
  assumes "prefix p line" and "CHR '' '' \<notin> set p"
  shows "prefix p (hd (split_on (CHR '' '') line))"
proof -
  obtain w where "line = p @ w" using assms(1) by (auto simp: prefix_def)
  moreover have "prefix p (hd (split_on (CHR '' '') (p @ w)))"
    using assms(2)
  proof (induction p)
    case (Cons x p)
    then show ?case by (auto split: list.splits)
  qed simp
  ultimately show ?thesis by simp
qed

lemma prefix_hd_join: "ps \<noteq> [] \<Longrightarrow> prefix p (hd ps) \<Longrightarrow> prefix p (join_with sep ps)"
  by (cases ps; cases "tl ps") (auto simp: prefix_def)

lemma items_no_crlf: "no_crlf line \<Longrightarrow> x \<in> set (split_on (CHR '' '') line) \<Longrightarrow> no_crlf x"
  using no_crlf_join [of "split_on (CHR '' '') line"] by (simp add: join_split list_all_iff)

text \<open>What replacing an item does to the text: one item of one line changes, nothing else.\<close>

lemma replace_nth_item_text:
  assumes "find_line s p = Some (i, lf)" and "CHR 0x0D \<notin> set p" and "CHR '' '' \<notin> set p"
    and "2 \<le> n" and "n \<le> int (length (split_on (CHR '' '') (take lf (drop i s))))"
    and "CHR '' '' \<notin> set new" and "no_crlf new"
  obtains a line b where "s = a @ line @ crlf @ b" and "find_line s p = Some (length a, length line)"
    and "replace_nth_item s p n new =
      a @ join_with '' '' ((split_on (CHR '' '') line)[nat (n - 1) := new]) @ crlf @ b"
    and "find_line (replace_nth_item s p n new) p =
      Some (length a, length (join_with '' '' ((split_on (CHR '' '') line)[nat (n - 1) := new])))"
proof -
  from find_line_split [OF assms(1,2)] obtain a line b where
    s: "s = a @ line @ crlf @ b" "i = length a" "lf = length line"
    and line: "no_crlf line" "prefix p line"
    and early: "\<forall>k < length a. \<not> prefix p (drop k (a @ line @ crlf @ b))" .
  let ?items = "split_on (CHR '' '') line"
  let ?new = "?items[nat (n - 1) := new]"
  have items: "n \<le> int (length ?items)" "?items \<noteq> []" using assms(5) s by auto
  have nc: "no_crlf (join_with '' '' ?new)"
    using items_no_crlf [OF line(1)] assms(7) set_update_subset_insert [of ?items "nat (n - 1)" new]
    by (auto simp: no_crlf_join list_all_iff)
  have "hd ?new = hd ?items" using items(2) assms(4) by (cases ?items) (auto split: nat.splits)
  then have pre: "prefix p (join_with '' '' ?new)"
    using first_item_prefix [OF line(2) assms(3)] items(2) by (intro prefix_hd_join) auto
  have rep: "replace_nth_item s p n new = a @ join_with '' '' ?new @ crlf @ b"
    using assms(1,4) items s(2,3) write_items_join [of 0 n new ?items] unfolding s(1)
    by (simp add: replace_nth_item_def)
  have "find_line (a @ join_with '' '' ?new @ crlf @ b) p = Some (length a, length (join_with '' '' ?new))"
  proof (rule find_line_join [OF nc pre])
    show "\<forall>k < length a. \<not> prefix p (drop k (a @ join_with '' '' ?new @ crlf @ b))"
      using early earlier_match [of p "line @ crlf @ b" "join_with '' '' ?new @ crlf @ b" _ a] line(2) pre
      by (metis less_imp_le prefix_prefix)
  qed
  then show thesis using that [of a line b] s assms(1) rep by simp
qed

text \<open>
  C22. Replacing the \<open>n\<close>-th item of a line and reading items of that line: the \<open>n\<close>-th is the new
  one, every other is what it was.
\<close>

theorem get_after_replace:
  assumes "find_line s p = Some (i, lf)" and "CHR 0x0D \<notin> set p" and "CHR '' '' \<notin> set p"
    and "2 \<le> n" and "n \<le> int (length (split_on (CHR '' '') (take lf (drop i s))))"
    and "CHR '' '' \<notin> set new" and "no_crlf new"
  shows "get_nth_item (replace_nth_item s p n new) p m =
    (if m = n then Returns new else get_nth_item s p m)"
proof -
  from replace_nth_item_text [OF assms] obtain a line b where
    s: "s = a @ line @ crlf @ b" and f: "find_line s p = Some (length a, length line)"
    and rep: "replace_nth_item s p n new =
      a @ join_with '' '' ((split_on (CHR '' '') line)[nat (n - 1) := new]) @ crlf @ b"
    and fr: "find_line (replace_nth_item s p n new) p =
      Some (length a, length (join_with '' '' ((split_on (CHR '' '') line)[nat (n - 1) := new])))" .
  let ?items = "split_on (CHR '' '') line"
  have n: "n \<le> int (length ?items)" using assms(1,5) f s by simp
  have "split_on (CHR '' '') (join_with '' '' (?items[nat (n - 1) := new])) = ?items[nat (n - 1) := new]"
    using split_on_items_free [of _ "CHR '' ''" line] assms(6)
      set_update_subset_insert [of ?items "nat (n - 1)" new]
    by (intro split_join) auto
  moreover have "(?items[nat (n - 1) := new]) ! nat (m - 1) = (if m = n then new else ?items ! nat (m - 1))"
    if "1 \<le> m" "m \<le> int (length ?items)" using that assms(4) by (auto simp: nth_list_update)
  ultimately show ?thesis
    using f fr n assms(4) s unfolding rep by (simp add: get_nth_item_def Let_def)
qed

definition sample_sdp :: string where
  "sample_sdp = ''v=0'' @ crlf @ ''c=IN IP4 0.0.0.0'' @ crlf @ ''m=audio 9 RTP/AVP 0'' @ crlf"

theorem get_after_replace_witness:
  "get_nth_item (replace_nth_item sample_sdp ''c=IN'' 3 ''10.0.0.1'') ''c=IN'' 3 = Returns ''10.0.0.1'' \<and>
   get_nth_item (replace_nth_item sample_sdp ''c=IN'' 3 ''10.0.0.1'') ''c=IN'' 2 = Returns ''IP4''"
proof -
  have f: "find_line sample_sdp ''c=IN'' = Some (5, 16)"
    by (simp add: find_line_def sample_sdp_def crlf_def index_of_Cons)
  have l: "split_on (CHR '' '') (take 16 (drop 5 sample_sdp)) = [''c=IN'', ''IP4'', ''0.0.0.0'']"
    by (simp add: sample_sdp_def crlf_def)
  have g: "get_nth_item sample_sdp ''c=IN'' 2 = Returns ''IP4''"
    by (simp add: get_nth_item_def f l)
  note r = get_after_replace [OF f, of 3 "''10.0.0.1''"]
  show ?thesis using r [of 3] r [of 2] l g by simp
qed

text \<open>
  A text that begins a section: an occurrence of the pattern does not reach from the text before
  into it, when its first character is not in the rest of the pattern.
\<close>

definition begins_apart :: "string \<Rightarrow> string \<Rightarrow> bool" where
  "begins_apart p v = (p \<noteq> [] \<and> v \<noteq> [] \<and> hd v \<notin> set (tl p))"

lemma no_straddle:
  assumes "begins_apart p v" and "k < length a" and "prefix p (drop k (a @ v))"
  shows "sublist p a"
proof -
  have d: "drop k (a @ v) = drop k a @ v" using assms(2) by simp
  have "prefix p (drop k a)"
  proof (rule ccontr)
    assume "\<not> prefix p (drop k a)"
    then obtain w where w: "p = drop k a @ w" "prefix w v" using assms(3) unfolding d prefix_append by blast
    have "w \<noteq> []" using \<open>\<not> prefix p (drop k a)\<close> w(1) by auto
    then have "hd v = hd w" "hd w \<in> set w" using w(2) by (auto simp: prefix_def)
    moreover have "set w \<subseteq> set (tl p)" using w(1) assms(2) by (cases "drop k a") auto
    ultimately show False using assms(1) by (auto simp: begins_apart_def)
  qed
  then show ?thesis by (metis append_take_drop_id prefix_def sublist_appendI)
qed

lemma section_found:
  assumes "begins_apart p v" and "\<not> sublist p a"
  shows "index_of (a @ v) p = map_option (\<lambda>i. length a + i) (index_of v p)"
  using no_straddle [OF assms(1)] assms(2) by (intro index_of_append_None) blast

lemma section_start: "prefix p v \<Longrightarrow> index_of v p = Some 0"
  by (subst index_of.simps) simp

lemma media_lines_apart:
  "prefix ''m=audio'' v \<or> prefix ''m=video'' v \<Longrightarrow> begins_apart ''m=audio'' v \<and> begins_apart ''m=video'' v"
  by (cases v) (auto simp: begins_apart_def)

text \<open>
  C21. What happens to the sections of a remote description, given as a text without media lines of
  audio or video, the text from the first audio line on, and the text from the video line on. With
  audio before video, all from the audio line to the video line is cut; with video before audio,
  all from the audio line on is cut (in both cases with any other section in that text); what is
  kept has no audio line. A description with one kind only is not cut. In all cases the two
  attribute lines are appended at the end.
\<close>

theorem remote_audio_removed:
  assumes "prefix ''m=audio'' audio" and "prefix ''m=video'' video"
    and "index_of text ''m=audio'' = None" and "index_of text ''m=video'' = None"
    and "index_of audio ''m=video'' = None" and "index_of video ''m=audio'' = None"
  shows "edit_remote_sdp (text @ audio @ video) = append_attributes (text @ video) \<and>
    edit_remote_sdp (text @ video @ audio) = append_attributes (text @ video) \<and>
    index_of (text @ video) ''m=audio'' = None \<and>
    edit_remote_sdp (text @ video) = append_attributes (text @ video) \<and>
    edit_remote_sdp (text @ audio) = append_attributes (text @ audio)"
proof -
  note free = assms(3-6) [unfolded index_of_None_sublist]
  have av: "begins_apart ''m=audio'' audio" "begins_apart ''m=video'' audio"
    "begins_apart ''m=audio'' video" "begins_apart ''m=video'' video"
    using media_lines_apart assms(1,2) by blast+
  then have apart: "begins_apart ''m=video'' (audio @ video)" "begins_apart ''m=audio'' (audio @ video)"
    "begins_apart ''m=video'' (video @ audio)" "begins_apart ''m=audio'' (video @ audio)"
    by (simp_all add: begins_apart_def)
  have zero: "index_of audio ''m=audio'' = Some 0" "index_of video ''m=video'' = Some 0"
    "index_of (audio @ video) ''m=audio'' = Some 0" "index_of (video @ audio) ''m=video'' = Some 0"
    using section_start assms(1,2) by (simp_all add: prefix_prefix)
  have "index_of (audio @ video) ''m=video'' = Some (length audio)"
    "index_of (video @ audio) ''m=audio'' = Some (length video)"
    using section_found [OF av(4) free(3)] section_found [OF av(1) free(4)] zero(1,2) by simp_all
  then have i: "index_of (text @ audio @ video) ''m=audio'' = Some (length text)"
    "index_of (text @ audio @ video) ''m=video'' = Some (length text + length audio)"
    "index_of (text @ video @ audio) ''m=video'' = Some (length text)"
    "index_of (text @ video @ audio) ''m=audio'' = Some (length text + length video)"
    "index_of (text @ video) ''m=audio'' = None" "index_of (text @ audio) ''m=video'' = None"
    using section_found [OF apart(2) free(1)] section_found [OF apart(1) free(2)]
      section_found [OF apart(3) free(2)] section_found [OF apart(4) free(1)]
      section_found [OF av(3) free(1)] section_found [OF av(2) free(2)] zero assms(5,6) by simp_all
  have "audio \<noteq> []" using assms(1) by auto
  then show ?thesis
    using i by (auto simp: edit_remote_sdp_def prefer_video_def split: option.split)
qed

theorem remote_audio_removed_witness:
  "edit_remote_sdp (''v=0 m=audio 9 m=application 9 m=video 9 '') = append_attributes (''v=0 m=video 9 '') \<and>
   edit_remote_sdp (''v=0 m=video 9 m=audio 9 m=application 9 '') = append_attributes (''v=0 m=video 9 '')"
proof -
  have i: "index_of ''v=0 '' ''m=audio'' = None" "index_of ''v=0 '' ''m=video'' = None"
    "index_of ''m=audio 9 m=application 9 '' ''m=video'' = None" "index_of ''m=video 9 '' ''m=audio'' = None"
    by (simp_all add: index_of_Cons)
  show ?thesis using remote_audio_removed [OF _ _ i] by simp
qed

text \<open>
  When ICE servers are configured but no candidate was gathered (the gathering times out
  after five seconds), the rewriting blanks the connection address and the media port.
\<close>

theorem relay_without_candidate_blanks:
  "local_sdp ''turn:t'' sample_sdp =
     Returns (''v=0'' @ crlf @ ''c=IN IP4 '' @ crlf @ ''m=audio  RTP/AVP 0'' @ crlf)"
  by (simp add: local_sdp_def rewrite_for_relay_def get_nth_item_def replace_nth_item_def find_line_def
      sample_sdp_def crlf_def index_of_Cons Let_def)

lemma nth_match_first: "index_of s p = Some i \<Longrightarrow> nth_match s p (nat 1) 0 0 = Some (0, i)"
  by simp

text \<open>Removing the first line with a prefix removes exactly that line and its line break.\<close>

theorem remove_first_line:
  assumes "no_crlf line" and "prefix p line"
    and "\<forall>k < length a. \<not> prefix p (drop k (a @ line @ crlf @ b))"
  shows "remove_nth_line (a @ line @ crlf @ b) p 1 = a @ b"
proof -
  have f: "index_of (a @ line @ crlf @ b) p = Some (length a)"
      "index_of (line @ crlf @ b) crlf = Some (length line)"
    using find_line_join [OF assms] by (auto simp: find_line_def split: option.splits)
  have "drop (length a + length line + 2) (a @ line @ crlf @ b) = b" by (simp add: crlf_def)
  then show ?thesis using f nth_match_first [OF f(1)] by (simp add: remove_nth_line_def)
qed

theorem remove_first_line_witness:
  "remove_nth_line (''v=0'' @ crlf @ ''a=rtcp-rsize'' @ crlf @ ''x'') ''a=rtcp'' 1 = ''v=0'' @ crlf @ ''x''"
proof -
  have "\<forall>k < length (''v=0'' @ crlf). \<not> prefix ''a=rtcp'' (drop k ((''v=0'' @ crlf) @ ''a=rtcp-rsize'' @ crlf @ ''x''))"
    by (auto simp: crlf_def less_Suc_eq)
  from remove_first_line [OF _ _ this] show ?thesis by simp
qed

end
