(* ===== verification/H264_Reader.thy ===== *)
theory H264_Reader
  imports Prelude
begin

unbundle bit_operations_syntax

text \<open>
  The H.264 Annex-B reader (\<^verbatim>\<open>src/rtc/h264reader/h264reader.go\<close> and \<^verbatim>\<open>nalunittype.go\<close>): buffered
  reading from an \<^verbatim>\<open>io.Reader\<close>, the start-code prefix, the byte loop of \<^verbatim>\<open>NextNAL\<close> that finds the
  next start code and drops SEI units, and the NAL header. Slicing and indexing that Go checks
  at run time are \<open>Panics\<close> here.
\<close>

subsection \<open>NAL units\<close>

record nal =
  PictureOrderCount :: "32 word"
  ForbiddenZeroBit :: bool
  RefIdc :: u8
  UnitType :: u8
  Data :: bytes

definition NalUnitTypeSEI :: u8 where [simp]: "NalUnitTypeSEI = 6"
definition NalUnitTypeSPS :: u8 where [simp]: "NalUnitTypeSPS = 7"
definition NalUnitTypePPS :: u8 where [simp]: "NalUnitTypePPS = 8"

definition new_nal :: "bytes \<Rightarrow> nal" where
  "new_nal d = \<lparr> PictureOrderCount = 0, ForbiddenZeroBit = False, RefIdc = 0, UnitType = 0, Data = d \<rparr>"

definition parse_header :: "nal \<Rightarrow> nal outcome" where
  "parse_header h =
     (case Data h of
        [] \<Rightarrow> Panics
      | firstByte # _ \<Rightarrow>
          Returns (h\<lparr> ForbiddenZeroBit := (drop_bit 7 (firstByte AND 0x80) = 1),
                      RefIdc := drop_bit 5 (firstByte AND 0x60),
                      UnitType := drop_bit 0 (firstByte AND 0x1F) \<rparr>))"

text \<open>The unit with its header parsed, for data known not to be empty.\<close>

definition nal_of :: "bytes \<Rightarrow> nal" where
  "nal_of d = \<lparr> PictureOrderCount = 0, ForbiddenZeroBit = (drop_bit 7 (hd d AND 0x80) = 1),
     RefIdc = drop_bit 5 (hd d AND 0x60), UnitType = hd d AND 0x1F, Data = d \<rparr>"

lemma parse_header_new_nal:
  "parse_header (new_nal d) = (if d = [] then Panics else Returns (nal_of d))"
  by (cases d) (auto simp: parse_header_def new_nal_def nal_of_def)

subsection \<open>The reader and its byte source\<close>

text \<open>
  What one call of the stream's \<^verbatim>\<open>Read\<close> returns: bytes without an error, or bytes together with
  an error. The stream is the list of its future results; after the last one it reports the end.
\<close>

datatype read_result = ReadOk bytes | ReadErr bytes

record h264_reader =
  stream :: "read_result list"
  nalBuffer :: bytes
  countOfConsecutiveZeroBytes :: nat
  nalPrefixParsed :: bool
  readBuffer :: bytes

datatype nal_error = EOF | ErrNilReader | ErrDataIsNotH264Stream

definition new_reader :: "read_result list option \<Rightarrow> (nal_error, h264_reader) result" where
  "new_reader in_stream =
     (case in_stream of
        None \<Rightarrow> Inl ErrNilReader
      | Some s \<Rightarrow> Inr \<lparr> stream = s, nalBuffer = [], countOfConsecutiveZeroBytes = 0,
                       nalPrefixParsed = False, readBuffer = [] \<rparr>)"

text \<open>The loop of \<^verbatim>\<open>read\<close>: it stops at an empty read or an error, whose bytes it drops.\<close>

fun fill_buffer :: "read_result list \<Rightarrow> bytes \<Rightarrow> nat \<Rightarrow> read_result list \<times> bytes" where
  "fill_buffer [] buf n = ([], buf)"
| "fill_buffer (x # xs) buf n =
     (if n \<le> length buf then (x # xs, buf)
      else case x of
          ReadErr _ \<Rightarrow> (xs, buf)
        | ReadOk d \<Rightarrow> if d = [] then (xs, buf) else fill_buffer xs (buf @ d) n)"

definition read_bytes :: "nat \<Rightarrow> h264_reader \<Rightarrow> bytes \<times> h264_reader" where
  "read_bytes numToRead r =
     (let (s, buf) = fill_buffer (stream r) (readBuffer r) numToRead;
          numShouldRead = (if numToRead \<le> length buf then numToRead else length buf)
      in (take numShouldRead buf, r\<lparr> stream := s, readBuffer := drop numShouldRead buf \<rparr>))"

definition bitstream_prefix :: "h264_reader \<Rightarrow> (nal_error, nat) result \<times> h264_reader" where
  "bitstream_prefix r =
     (let (prefixBuffer, r1) = read_bytes 4 r; n = length prefixBuffer in
      if n = 0 then (Inl EOF, r1)
      else if n < 3 then (Inl ErrDataIsNotH264Stream, r1)
      else let found3 = (take 3 prefixBuffer = [0, 0, 1]) in
        if n = 3 then (if found3 then (Inl EOF, r1) else (Inl ErrDataIsNotH264Stream, r1))
        else if found3 then (Inr 3, r1\<lparr> nalBuffer := nalBuffer r1 @ [prefixBuffer ! 3] \<rparr>)
        else if prefixBuffer = [0, 0, 0, 1] then (Inr 4, r1)
        else (Inl ErrDataIsNotH264Stream, r1))"

definition process_byte :: "u8 \<Rightarrow> h264_reader \<Rightarrow> (bool \<times> h264_reader) outcome" where
  "process_byte b r =
     (if b = 0 then
        Returns (False, r\<lparr> countOfConsecutiveZeroBytes := countOfConsecutiveZeroBytes r + 1 \<rparr>)
      else if b = 1 \<and> 2 \<le> countOfConsecutiveZeroBytes r then
        (let inPrefix = (if 2 < countOfConsecutiveZeroBytes r then 3 else 2) in
         if length (nalBuffer r) < inPrefix then Panics
         else Returns (True, r\<lparr> countOfConsecutiveZeroBytes := 0,
                nalBuffer := take (length (nalBuffer r) - inPrefix) (nalBuffer r) \<rparr>))
      else Returns (False, r\<lparr> countOfConsecutiveZeroBytes := 0 \<rparr>))"

text \<open>The bytes the reader can still deliver; they bound the number of loop iterations.\<close>

fun result_bytes :: "read_result \<Rightarrow> bytes" where
  "result_bytes (ReadOk d) = d"
| "result_bytes (ReadErr d) = d"

definition pending :: "h264_reader \<Rightarrow> nat" where
  "pending r = length (readBuffer r) + length (concat (map result_bytes (stream r)))"

lemma fill_buffer_pending:
  "fill_buffer s buf n = (s', buf') \<Longrightarrow>
     length buf' + length (concat (map result_bytes s')) \<le> length buf + length (concat (map result_bytes s))"
proof (induction s buf n rule: fill_buffer.induct)
  case (1 buf n)
  then show ?case by simp
next
  case (2 x xs buf n)
  then show ?case by (cases x) (fastforce split: if_splits)+
qed

lemma read_bytes_pending:
  assumes "read_bytes n r = (d, r')"
  shows "pending r' + length d \<le> pending r"
proof -
  obtain s buf where f: "fill_buffer (stream r) (readBuffer r) n = (s, buf)" by fastforce
  show ?thesis
    using fill_buffer_pending [OF f] assms
    by (auto simp: read_bytes_def pending_def f split: if_splits)
qed

lemma process_byte_frame:
  "process_byte b r = Returns (found, r') \<Longrightarrow>
     stream r' = stream r \<and> readBuffer r' = readBuffer r \<and> nalPrefixParsed r' = nalPrefixParsed r"
  by (auto simp: process_byte_def Let_def split: if_splits)

text \<open>The byte loop of \<^verbatim>\<open>NextNAL\<close>; it ends when the source is exhausted or a unit is complete.\<close>

function nal_loop :: "h264_reader \<Rightarrow> h264_reader outcome" where
  "nal_loop r =
     (case read_bytes 1 r of (buffer, r1) \<Rightarrow>
        if length buffer \<noteq> 1 then Returns r1
        else case process_byte (buffer ! 0) r1 of
            Panics \<Rightarrow> Panics
          | Returns (nalFound, r2) \<Rightarrow>
              if nalFound then
                (case parse_header (new_nal (nalBuffer r2)) of
                   Panics \<Rightarrow> Panics
                 | Returns n \<Rightarrow>
                     if UnitType n = NalUnitTypeSEI then nal_loop (r2\<lparr> nalBuffer := [] \<rparr>)
                     else Returns r2)
              else nal_loop (r2\<lparr> nalBuffer := nalBuffer r2 @ [buffer ! 0] \<rparr>))"
  by pat_completeness auto
termination
proof (relation "measure pending", goal_cases)
  case 1
  show ?case by simp
next
  case 2
  then show ?case
    by (auto simp: pending_def dest!: process_byte_frame read_bytes_pending [OF sym])
next
  case 3
  then show ?case
    by (auto simp: pending_def dest!: process_byte_frame read_bytes_pending [OF sym])
qed

declare nal_loop.simps [simp del]

definition finish_nal :: "h264_reader \<Rightarrow> ((nal_error, nal) result \<times> h264_reader) outcome" where
  "finish_nal r =
     (if nalBuffer r = [] then Returns (Inl EOF, r)
      else case parse_header (new_nal (nalBuffer r)) of
          Panics \<Rightarrow> Panics
        | Returns n \<Rightarrow> Returns (Inr n, r\<lparr> nalBuffer := [] \<rparr>))"

definition scan_and_finish :: "h264_reader \<Rightarrow> ((nal_error, nal) result \<times> h264_reader) outcome" where
  "scan_and_finish r = (case nal_loop r of Panics \<Rightarrow> Panics | Returns r1 \<Rightarrow> finish_nal r1)"

definition next_nal :: "h264_reader \<Rightarrow> ((nal_error, nal) result \<times> h264_reader) outcome" where
  "next_nal r =
     (if \<not> nalPrefixParsed r then
        (case bitstream_prefix r of
           (Inl e, r1) \<Rightarrow> Returns (Inl e, r1)
         | (Inr _, r1) \<Rightarrow> scan_and_finish (r1\<lparr> nalPrefixParsed := True \<rparr>))
      else scan_and_finish r)"

end
