(* ===== verification/H264_Stream.thy ===== *)
theory H264_Stream
  imports H264_Reader
begin

unbundle bit_operations_syntax

text \<open>
  What the H.264 reader delivers, as a function of the bytes of its source. The interface
  \<open>byte_source\<close> states what \<^verbatim>\<open>NextNAL\<close> relies on (a read returns the next bytes, whatever the
  chunks of the underlying reader), the reader's own \<^verbatim>\<open>read\<close> is shown to provide it, and the byte
  loop is refined to the function \<open>scan_bytes\<close> on byte lists. On it the theory proves that a
  well-formed Annex-B stream is read back unit by unit.
\<close>

subsection \<open>The byte source interface\<close>

locale byte_source =
  fixes rd :: "nat \<Rightarrow> 'r \<Rightarrow> 'b list \<times> 'r"
    and contents :: "'r \<Rightarrow> 'b list"
    and good :: "'r \<Rightarrow> bool"
  assumes rd_data: "good r \<Longrightarrow> fst (rd n r) = take n (contents r)"
    and rd_contents: "good r \<Longrightarrow> contents (snd (rd n r)) = drop n (contents r)"
    and rd_good: "good r \<Longrightarrow> good (snd (rd n r))"
begin

lemma rd_exact:
  assumes "good r"
  obtains r' where "rd n r = (take n (contents r), r')" and "contents r' = drop n (contents r)" and "good r'"
  using rd_data [OF assms] rd_contents [OF assms] rd_good [OF assms] by (metis prod.collapse)

lemma rd_one_end: "good r \<Longrightarrow> contents r = [] \<Longrightarrow> \<exists>r'. rd 1 r = ([], r') \<and> contents r' = [] \<and> good r'"
  using rd_exact [of r 1] by auto

lemma rd_one_more:
  "good r \<Longrightarrow> contents r = b # bs \<Longrightarrow> \<exists>r'. rd 1 r = ([b], r') \<and> contents r' = bs \<and> good r'"
  using rd_exact [of r 1] by auto

lemma rd_split:
  assumes "good r"
  shows "fst (rd n r) @ fst (rd m (snd (rd n r))) = fst (rd (n + m) r)"
  using assms by (simp add: rd_data rd_contents rd_good take_add)

end

definition source_bytes :: "h264_reader \<Rightarrow> bytes" where
  "source_bytes r = readBuffer r @ concat (map result_bytes (stream r))"

definition good_source :: "h264_reader \<Rightarrow> bool" where
  "good_source r = list_all (\<lambda>x. case x of ReadOk d \<Rightarrow> d \<noteq> [] | ReadErr _ \<Rightarrow> False) (stream r)"

lemma fill_buffer_good:
  assumes "list_all (\<lambda>x. case x of ReadOk d \<Rightarrow> d \<noteq> [] | ReadErr _ \<Rightarrow> False) s"
    and "fill_buffer s buf n = (s', buf')"
  shows "buf' @ concat (map result_bytes s') = buf @ concat (map result_bytes s)
    \<and> list_all (\<lambda>x. case x of ReadOk d \<Rightarrow> d \<noteq> [] | ReadErr _ \<Rightarrow> False) s'
    \<and> (n \<le> length buf' \<or> s' = [])"
  using assms
proof (induction s buf n rule: fill_buffer.induct)
  case (1 buf n)
  then show ?case by simp
next
  case (2 x xs buf n)
  then show ?case by (cases x) (auto split: if_splits)
qed

interpretation h264_source: byte_source read_bytes source_bytes good_source
proof
  fix r :: h264_reader and n
  assume good: "good_source r"
  obtain s buf where f: "fill_buffer (stream r) (readBuffer r) n = (s, buf)" by fastforce
  note ok = fill_buffer_good [OF good [unfolded good_source_def] f]
  have src: "source_bytes r = buf @ concat (map result_bytes s)" using ok by (simp add: source_bytes_def)
  show "fst (read_bytes n r) = take n (source_bytes r)"
    unfolding src using conjunct2 [OF conjunct2 [OF ok]] by (auto simp: read_bytes_def f)
  show "source_bytes (snd (read_bytes n r)) = drop n (source_bytes r)"
    unfolding src using conjunct2 [OF conjunct2 [OF ok]]
    by (auto simp: read_bytes_def f source_bytes_def)
  show "good_source (snd (read_bytes n r))"
    using ok by (simp add: read_bytes_def f good_source_def)
qed

lemma read_bytes_frame:
  "read_bytes n r = (d, r') \<Longrightarrow>
     nalBuffer r' = nalBuffer r \<and> nalPrefixParsed r' = nalPrefixParsed r \<and>
     countOfConsecutiveZeroBytes r' = countOfConsecutiveZeroBytes r"
  by (auto simp: read_bytes_def Let_def split: prod.splits)

lemma source_bytes_frame [simp]:
  "source_bytes (r\<lparr> nalBuffer := b \<rparr>) = source_bytes r"
  "source_bytes (r\<lparr> nalPrefixParsed := p \<rparr>) = source_bytes r"
  "source_bytes (r\<lparr> countOfConsecutiveZeroBytes := z \<rparr>) = source_bytes r"
  "good_source (r\<lparr> nalBuffer := b \<rparr>) = good_source r"
  "good_source (r\<lparr> nalPrefixParsed := p \<rparr>) = good_source r"
  "good_source (r\<lparr> countOfConsecutiveZeroBytes := z \<rparr>) = good_source r"
  by (simp_all add: source_bytes_def good_source_def)

subsection \<open>The byte loop on byte lists\<close>

definition is_sei :: "bytes \<Rightarrow> bool" where
  "is_sei d = (UnitType (nal_of d) = NalUnitTypeSEI)"

text \<open>
  \<open>scan_bytes z buf bs\<close>: with \<open>z\<close> zero bytes counted and \<open>buf\<close> collected, what the loop makes of
  the bytes \<open>bs\<close>: the zero count, the collected unit and the bytes it left unread.
\<close>

fun scan_bytes :: "nat \<Rightarrow> bytes \<Rightarrow> bytes \<Rightarrow> (nat \<times> bytes \<times> bytes) outcome" where
  "scan_bytes z buf [] = Returns (z, buf, [])"
| "scan_bytes z buf (b # bs) =
     (if b = 0 then scan_bytes (z + 1) (buf @ [b]) bs
      else if b = 1 \<and> 2 \<le> z then
        (let k = (if 2 < z then 3 else 2); d = take (length buf - k) buf in
         if length buf < k \<or> d = [] then Panics
         else if is_sei d then scan_bytes 0 [] bs
         else Returns (0, d, bs))
      else scan_bytes 0 (buf @ [b]) bs)"

definition abstract_reader :: "h264_reader \<Rightarrow> nat \<times> bytes \<times> bytes" where
  "abstract_reader r = (countOfConsecutiveZeroBytes r, nalBuffer r, source_bytes r)"

text \<open>One iteration of the loop: at the end of the source, at a byte that ends a start code, else.\<close>

lemma nal_loop_end:
  assumes "good_source r" and "source_bytes r = []"
  shows "\<exists>r'. nal_loop r = Returns r' \<and> abstract_reader r' = abstract_reader r \<and> good_source r' \<and>
    nalPrefixParsed r' = nalPrefixParsed r"
proof -
  obtain r' where r': "read_bytes 1 r = ([], r')" "source_bytes r' = []" "good_source r'"
    using h264_source.rd_one_end [OF assms] by auto
  then show ?thesis
    using read_bytes_frame [OF r'(1)] assms(2)
    by (simp add: nal_loop.simps [of r] abstract_reader_def)
qed

definition ends_start_code :: "u8 \<Rightarrow> h264_reader \<Rightarrow> bool" where
  "ends_start_code b r = (b = 1 \<and> 2 \<le> countOfConsecutiveZeroBytes r)"

definition cut_prefix :: "nat \<Rightarrow> bytes \<Rightarrow> bytes" where
  "cut_prefix z buf = take (length buf - (if 2 < z then 3 else 2)) buf"

lemma nal_loop_byte:
  assumes "good_source r" and "source_bytes r = b # bs" and "\<not> ends_start_code b r"
  shows "\<exists>r2. nal_loop r = nal_loop r2 \<and> good_source r2 \<and> nalPrefixParsed r2 = nalPrefixParsed r \<and>
    abstract_reader r2 = ((if b = 0 then countOfConsecutiveZeroBytes r + 1 else 0), nalBuffer r @ [b], bs)"
proof -
  obtain r1 where r1: "read_bytes 1 r = ([b], r1)" "source_bytes r1 = bs" "good_source r1"
    using h264_source.rd_one_more [OF assms(1,2)] by blast
  note fr = read_bytes_frame [OF r1(1)]
  let ?r2 = "r1\<lparr> countOfConsecutiveZeroBytes := (if b = 0 then countOfConsecutiveZeroBytes r + 1 else 0) \<rparr>"
  have "process_byte b r1 = Returns (False, ?r2)"
    using assms(3) fr by (auto simp: process_byte_def ends_start_code_def)
  then have "nal_loop r = nal_loop (?r2\<lparr> nalBuffer := nalBuffer r @ [b] \<rparr>)"
    using r1 fr by (simp add: nal_loop.simps [of r])
  then show ?thesis using r1 fr
    by (intro exI [of _ "?r2\<lparr> nalBuffer := nalBuffer r @ [b] \<rparr>"]) (auto simp: abstract_reader_def)
qed

lemma nal_loop_start_code:
  assumes "good_source r" and "source_bytes r = b # bs" and "ends_start_code b r"
  defines "z \<equiv> countOfConsecutiveZeroBytes r"
  defines "d \<equiv> cut_prefix z (nalBuffer r)"
  shows "\<exists>r2. good_source r2 \<and> nalPrefixParsed r2 = nalPrefixParsed r \<and>
    (if length (nalBuffer r) < (if 2 < z then 3 else 2) \<or> d = [] then nal_loop r = Panics
     else if is_sei d then nal_loop r = nal_loop r2 \<and> abstract_reader r2 = (0, [], bs)
     else nal_loop r = Returns r2 \<and> abstract_reader r2 = (0, d, bs))"
proof -
  obtain r1 where r1: "read_bytes 1 r = ([b], r1)" "source_bytes r1 = bs" "good_source r1"
    using h264_source.rd_one_more [OF assms(1,2)] by blast
  note fr = read_bytes_frame [OF r1(1)]
  let ?short = "length (nalBuffer r) < (if 2 < z then 3 else 2)"
  let ?r2 = "r1\<lparr> countOfConsecutiveZeroBytes := 0, nalBuffer := d \<rparr>"
  have pb: "process_byte b r1 = (if ?short then Panics else Returns (True, ?r2))"
    using assms(3) fr by (auto simp: process_byte_def ends_start_code_def d_def z_def cut_prefix_def Let_def)
  have loop: "nal_loop r = (if ?short \<or> d = [] then Panics
      else if is_sei d then nal_loop (?r2\<lparr> nalBuffer := [] \<rparr>) else Returns ?r2)"
    using r1 pb by (simp add: nal_loop.simps [of r] parse_header_new_nal is_sei_def)
  show ?thesis
  proof (cases "is_sei d")
    case True
    then show ?thesis using loop r1 fr
      by (intro exI [of _ "?r2\<lparr> nalBuffer := [] \<rparr>"]) (simp add: abstract_reader_def)
  next
    case False
    then show ?thesis using loop r1 fr by (intro exI [of _ ?r2]) (simp add: abstract_reader_def)
  qed
qed

text \<open>The loop over the buffered, chunked source refines the function on its bytes.\<close>

definition loop_agrees :: "h264_reader outcome \<Rightarrow> bool \<Rightarrow> (nat \<times> bytes \<times> bytes) outcome \<Rightarrow> bool" where
  "loop_agrees c p a =
     (case c of Panics \<Rightarrow> a = Panics
      | Returns r' \<Rightarrow> a = Returns (abstract_reader r') \<and> good_source r' \<and> nalPrefixParsed r' = p)"

lemma nal_loop_refines:
  "good_source r \<Longrightarrow> abstract_reader r = (z, buf, bs) \<Longrightarrow>
   loop_agrees (nal_loop r) (nalPrefixParsed r) (scan_bytes z buf bs)"
proof (induction bs arbitrary: r z buf)
  case Nil
  then show ?case using nal_loop_end [of r] by (auto simp: loop_agrees_def abstract_reader_def)
next
  case (Cons b bs)
  have abs: "countOfConsecutiveZeroBytes r = z" "nalBuffer r = buf" "source_bytes r = b # bs"
    using Cons.prems(2) by (auto simp: abstract_reader_def)
  show ?case
  proof (cases "ends_start_code b r")
    case True
    let ?d = "cut_prefix z buf" and ?short = "length buf < (if 2 < z then 3 else 2)"
    have scan: "scan_bytes z buf (b # bs) =
        (if ?short \<or> ?d = [] then Panics else if is_sei ?d then scan_bytes 0 [] bs else Returns (0, ?d, bs))"
      using True abs by (simp add: ends_start_code_def cut_prefix_def Let_def)
    obtain r2 where r2: "good_source r2" "nalPrefixParsed r2 = nalPrefixParsed r"
      and code: "if ?short \<or> ?d = [] then nal_loop r = Panics
        else if is_sei ?d then nal_loop r = nal_loop r2 \<and> abstract_reader r2 = (0, [], bs)
        else nal_loop r = Returns r2 \<and> abstract_reader r2 = (0, ?d, bs)"
      using nal_loop_start_code [OF Cons.prems(1) abs(3) True] unfolding abs by blast
    then show ?thesis
      using Cons.IH [of r2 0 "[]"] scan
      by (simp add: loop_agrees_def split: if_splits)
  next
    case False
    let ?z = "if b = 0 then z + 1 else 0"
    have scan: "scan_bytes z buf (b # bs) = scan_bytes ?z (buf @ [b]) bs"
      using False abs by (auto simp: ends_start_code_def)
    obtain r2 where r2: "nal_loop r = nal_loop r2" "good_source r2"
        "nalPrefixParsed r2 = nalPrefixParsed r" "abstract_reader r2 = (?z, buf @ [b], bs)"
      using nal_loop_byte [OF Cons.prems(1) abs(3) False] unfolding abs by blast
    show ?thesis using Cons.IH [OF r2(2,4)] unfolding scan r2(1,3) .
  qed
qed

subsection \<open>NextNAL as a function of the source's bytes\<close>

definition abs_reader :: "h264_reader \<Rightarrow> bool \<times> nat \<times> bytes \<times> bytes" where
  "abs_reader r = (nalPrefixParsed r, abstract_reader r)"

definition scan_result ::
  "bool \<Rightarrow> (nat \<times> bytes \<times> bytes) outcome \<Rightarrow> ((nal_error, nal) result \<times> bool \<times> nat \<times> bytes \<times> bytes) outcome" where
  "scan_result p a =
     (case a of Panics \<Rightarrow> Panics
      | Returns (z, d, bs) \<Rightarrow>
          if d = [] then Returns (Inl EOF, p, z, [], bs) else Returns (Inr (nal_of d), p, z, [], bs))"

definition next_nal_bytes ::
  "bool \<times> nat \<times> bytes \<times> bytes \<Rightarrow> ((nal_error, nal) result \<times> bool \<times> nat \<times> bytes \<times> bytes) outcome" where
  "next_nal_bytes = (\<lambda>(p, z, buf, bs).
     if p then scan_result True (scan_bytes z buf bs)
     else let pre = take 4 bs; rest = drop 4 bs in
       if length pre = 0 \<or> pre = [0, 0, 1] then Returns (Inl EOF, False, z, buf, rest)
       else if length pre = 4 \<and> take 3 pre = [0, 0, 1]
         then scan_result True (scan_bytes z (buf @ [pre ! 3]) rest)
       else if pre = [0, 0, 0, 1] then scan_result True (scan_bytes z buf rest)
       else Returns (Inl ErrDataIsNotH264Stream, False, z, buf, rest))"

lemma finish_nal_abs:
  "nalPrefixParsed r = p \<Longrightarrow>
     map_outcome (map_prod id abs_reader) (finish_nal r) = scan_result p (Returns (abstract_reader r))"
  by (simp add: finish_nal_def scan_result_def abs_reader_def abstract_reader_def parse_header_new_nal)

lemma scan_and_finish_abs:
  assumes "good_source r" and "abstract_reader r = (z, buf, bs)" and "nalPrefixParsed r = p"
  shows "map_outcome (map_prod id abs_reader) (scan_and_finish r) = scan_result p (scan_bytes z buf bs)"
  using nal_loop_refines [OF assms(1,2)] finish_nal_abs assms(3)
  by (auto simp: scan_and_finish_def loop_agrees_def scan_result_def split: outcome.splits)

lemma scan_and_finish_good:
  assumes "good_source r" and "scan_and_finish r = Returns (x, r')"
  shows "good_source r'"
proof -
  obtain z buf bs where "abstract_reader r = (z, buf, bs)" by (metis prod_cases3)
  from nal_loop_refines [OF assms(1) this] assms(2) show ?thesis
    by (auto simp: scan_and_finish_def finish_nal_def loop_agrees_def split: outcome.splits if_splits)
qed

lemma take3_of_short: "length (take 4 bs) = 3 \<Longrightarrow> take 3 (take 4 bs) = take 4 bs"
  by simp

lemma bitstream_prefix_cases:
  assumes "good_source r" and "source_bytes r = bs"
  obtains r1 where "good_source r1" and "source_bytes r1 = drop 4 bs"
    and "nalPrefixParsed r1 = nalPrefixParsed r"
    and "countOfConsecutiveZeroBytes r1 = countOfConsecutiveZeroBytes r"
    and "nalBuffer r1 = nalBuffer r"
    and "bitstream_prefix r =
      (if length (take 4 bs) = 0 \<or> take 4 bs = [0, 0, 1] then (Inl EOF, r1)
       else if length (take 4 bs) = 4 \<and> take 3 (take 4 bs) = [0, 0, 1]
         then (Inr 3, r1\<lparr> nalBuffer := nalBuffer r @ [take 4 bs ! 3] \<rparr>)
       else if take 4 bs = [0, 0, 0, 1] then (Inr 4, r1)
       else (Inl ErrDataIsNotH264Stream, r1))"
proof -
  obtain r1 where r1: "read_bytes 4 r = (take 4 bs, r1)" "source_bytes r1 = drop 4 bs" "good_source r1"
    using h264_source.rd_exact [OF assms(1), of 4] assms(2) by metis
  note fr = read_bytes_frame [OF r1(1)]
  let ?pre = "take 4 bs"
  have len: "length ?pre \<le> 4" by simp
  have "bitstream_prefix r =
      (if length ?pre = 0 \<or> ?pre = [0, 0, 1] then (Inl EOF, r1)
       else if length ?pre = 4 \<and> take 3 ?pre = [0, 0, 1]
         then (Inr 3, r1\<lparr> nalBuffer := nalBuffer r @ [?pre ! 3] \<rparr>)
       else if ?pre = [0, 0, 0, 1] then (Inr 4, r1)
       else (Inl ErrDataIsNotH264Stream, r1))"
    unfolding bitstream_prefix_def r1(1) Let_def prod.case using len fr take3_of_short [of bs]
    by (auto simp del: length_take take_take)
  then show thesis using that r1 fr by blast
qed

lemma next_nal_abs:
  assumes "good_source r"
  shows "map_outcome (map_prod id abs_reader) (next_nal r) = next_nal_bytes (abs_reader r)"
proof (cases "nalPrefixParsed r")
  case True
  then show ?thesis
    using scan_and_finish_abs [OF assms, of _ _ _ True]
    by (auto simp: next_nal_def next_nal_bytes_def abs_reader_def abstract_reader_def)
next
  case False
  let ?pre = "take 4 (source_bytes r)"
  from bitstream_prefix_cases [OF assms refl] obtain r1 where
    r1: "good_source r1" "source_bytes r1 = drop 4 (source_bytes r)"
      "nalPrefixParsed r1 = nalPrefixParsed r"
      "countOfConsecutiveZeroBytes r1 = countOfConsecutiveZeroBytes r" "nalBuffer r1 = nalBuffer r"
    and pre: "bitstream_prefix r =
      (if length ?pre = 0 \<or> ?pre = [0, 0, 1] then (Inl EOF, r1)
       else if length ?pre = 4 \<and> take 3 ?pre = [0, 0, 1]
         then (Inr 3, r1\<lparr> nalBuffer := nalBuffer r @ [?pre ! 3] \<rparr>)
       else if ?pre = [0, 0, 0, 1] then (Inr 4, r1)
       else (Inl ErrDataIsNotH264Stream, r1))" .
  have go: "map_outcome (map_prod id abs_reader) (scan_and_finish (r1\<lparr> nalBuffer := b, nalPrefixParsed := True \<rparr>)) =
      scan_result True (scan_bytes (countOfConsecutiveZeroBytes r) b (drop 4 (source_bytes r)))" for b
    using r1 by (intro scan_and_finish_abs) (auto simp: abstract_reader_def)
  have go4: "map_outcome (map_prod id abs_reader) (scan_and_finish (r1\<lparr> nalPrefixParsed := True \<rparr>)) =
      scan_result True (scan_bytes (countOfConsecutiveZeroBytes r) (nalBuffer r) (drop 4 (source_bytes r)))"
    using r1 by (intro scan_and_finish_abs) (auto simp: abstract_reader_def)
  show ?thesis
    using False go [of "nalBuffer r @ [?pre ! 3]"] go4 r1
    by (auto simp: next_nal_def pre next_nal_bytes_def abs_reader_def abstract_reader_def Let_def
        simp del: length_take take_take)
qed

text \<open>
  C10. \<^verbatim>\<open>NextNAL\<close> refines a function of the source's bytes: whatever the chunks the underlying
  reader delivers them in, the unit or error returned, the bytes left and the reader's own state
  are those of \<open>next_nal_bytes\<close>. A panic, too, depends on the bytes only.
\<close>

theorem next_nal_refines:
  assumes "good_source r"
  shows "map_outcome (map_prod id abs_reader) (next_nal r) = next_nal_bytes (abs_reader r)"
  using assms by (rule next_nal_abs)

definition fresh_reader :: "read_result list \<Rightarrow> h264_reader" where
  "fresh_reader s = \<lparr> stream = s, nalBuffer = [], countOfConsecutiveZeroBytes = 0,
     nalPrefixParsed = False, readBuffer = [] \<rparr>"

lemma new_reader_fresh: "new_reader (Some s) = Inr (fresh_reader s)"
  by (simp add: new_reader_def fresh_reader_def)

theorem next_nal_refines_witness:
  "map_outcome (map_prod id abs_reader) (next_nal (fresh_reader [ReadOk [0, 0], ReadOk [1, 0x65, 3]])) =
   Returns (Inr (nal_of [0x65, 3]), True, 0, [], [])"
proof -
  have good: "good_source (fresh_reader [ReadOk [0, 0], ReadOk [1, 0x65, 3]])"
    by (simp add: good_source_def fresh_reader_def)
  have abs: "abs_reader (fresh_reader [ReadOk [0, 0], ReadOk [1, 0x65, 3]]) = (False, 0, [], [0, 0, 1, 0x65, 3])"
    by (simp add: abs_reader_def abstract_reader_def fresh_reader_def source_bytes_def)
  show ?thesis
    using next_nal_refines [OF good] unfolding abs
    by (simp add: next_nal_bytes_def scan_result_def Let_def)
qed

lemma next_nal_good:
  assumes "good_source r" and "next_nal r = Returns (x, r')"
  shows "good_source r'"
proof (cases "nalPrefixParsed r")
  case True
  then show ?thesis using scan_and_finish_good assms by (simp add: next_nal_def)
next
  case False
  from bitstream_prefix_cases [OF assms(1) refl] obtain r1 where
    "good_source r1" and "\<exists>e. bitstream_prefix r = (Inl e, r1) \<or> bitstream_prefix r = (Inr 4, r1) \<or>
      (\<exists>b. bitstream_prefix r = (Inr 3, r1\<lparr> nalBuffer := b \<rparr>))" by metis
  then show ?thesis using False assms scan_and_finish_good
    by (auto simp: next_nal_def) (metis source_bytes_frame(4,5))+
qed

subsection \<open>Annex-B streams\<close>

definition start_code :: "bool \<Rightarrow> bytes" where
  "start_code long = (if long then [0, 0, 0, 1] else [0, 0, 1])"

text \<open>A unit as encoders write it: not empty, no start code inside, no zero byte at the end.\<close>

definition unit_ok :: "bytes \<Rightarrow> bool" where
  "unit_ok d = (d \<noteq> [] \<and> last d \<noteq> 0 \<and> \<not> sublist [0, 0, 1] d)"

text \<open>The bytes after the first unit: start codes and units in turn.\<close>

fun tail_bytes :: "(bool \<times> bytes) list \<Rightarrow> bytes" where
  "tail_bytes [] = []"
| "tail_bytes ((l, d) # us) = start_code l @ d @ tail_bytes us"

definition annexb :: "bool \<Rightarrow> bytes \<Rightarrow> (bool \<times> bytes) list \<Rightarrow> bytes" where
  "annexb l d us = start_code l @ d @ tail_bytes us"

text \<open>The units the reader hands out: SEI units are left out, except at the end of the stream.\<close>

fun delivered :: "bytes \<Rightarrow> (bool \<times> bytes) list \<Rightarrow> bytes list" where
  "delivered d [] = [d]"
| "delivered d ((l, e) # us) = (if is_sei d then delivered e us else d # delivered e us)"

fun free_from :: "nat \<Rightarrow> bytes \<Rightarrow> bool" where
  "free_from z [] = True"
| "free_from z (b # bs) =
     (if b = 0 then free_from (Suc z) bs else if b = 1 \<and> 2 \<le> z then False else free_from 0 bs)"

lemma free_from_sublist: "free_from z bs \<longleftrightarrow> \<not> sublist [0, 0, 1] (replicate (min z 2) 0 @ bs)"
proof (induction bs arbitrary: z)
  case Nil
  have "\<not> sublist [0, 0, 1] (replicate (min z 2) (0::u8))"
    using set_mono_sublist [of "[0, 0, 1]" "replicate (min z 2) (0::u8)"] by auto
  then show ?case by simp
next
  case (Cons b bs)
  have z: "z = 0 \<or> z = Suc 0 \<or> (\<exists>k. z = Suc (Suc k))" by (metis not0_implies_Suc)
  show ?case
    using z Cons.IH [of "Suc z"] Cons.IH [of 0]
    by (cases "b = 0"; cases "b = 1") (auto simp: numeral_2_eq_2 sublist_Cons_right)
qed

lemma scan_free:
  "free_from z e \<Longrightarrow> e = [] \<or> last e \<noteq> 0 \<Longrightarrow>
   scan_bytes z buf (e @ rest) = scan_bytes (if e = [] then z else 0) (buf @ e) rest"
proof (induction e arbitrary: z buf)
  case Nil
  then show ?case by simp
next
  case (Cons b e)
  show ?case
  proof (cases "b = 0")
    case True
    then have "e \<noteq> []" using Cons.prems(2) by auto
    then show ?thesis using True Cons by simp
  next
    case False
    then have "free_from 0 e" and "\<not> (b = 1 \<and> 2 \<le> z)" using Cons.prems(1) by (auto split: if_splits)
    moreover have "e = [] \<or> last e \<noteq> 0" using Cons.prems(2) by auto
    ultimately show ?thesis using False Cons.IH [of 0 "buf @ [b]"] by auto
  qed
qed

lemma scan_start_code:
  "d \<noteq> [] \<Longrightarrow> scan_bytes 0 d (start_code l @ rest) =
     (if is_sei d then scan_bytes 0 [] rest else Returns (0, d, rest))"
  by (simp add: start_code_def Let_def)

text \<open>What is left of a stream after some units were read.\<close>

fun left_bytes :: "(bytes \<times> (bool \<times> bytes) list) option \<Rightarrow> bytes" where
  "left_bytes None = []"
| "left_bytes (Some (d, us)) = d @ tail_bytes us"

fun left_delivered :: "(bytes \<times> (bool \<times> bytes) list) option \<Rightarrow> bytes list" where
  "left_delivered None = []"
| "left_delivered (Some (d, us)) = delivered d us"

fun left_ok :: "(bytes \<times> (bool \<times> bytes) list) option \<Rightarrow> bool" where
  "left_ok None = True"
| "left_ok (Some (d, us)) = (unit_ok d \<and> list_all (\<lambda>(l, e). unit_ok e) us)"

lemma unit_ok_free: "unit_ok d \<Longrightarrow> free_from 0 d \<and> d \<noteq> [] \<and> last d \<noteq> 0"
  by (simp add: unit_ok_def free_from_sublist)

lemma unit_ok_Cons_free:
  assumes "unit_ok (b # e)"
  shows "free_from 0 e \<and> (e = [] \<or> last e \<noteq> 0)"
proof -
  have "\<not> sublist [0, 0, 1] e" using assms by (auto simp: unit_ok_def sublist_Cons_right)
  then show ?thesis using assms by (auto simp: unit_ok_def free_from_sublist)
qed

lemma left_delivered_Nil: "left_delivered rem = [] \<longleftrightarrow> rem = None"
proof -
  have "delivered d us \<noteq> []" for d us by (induction d us rule: delivered.induct) auto
  then show ?thesis by (cases rem) auto
qed

lemma scan_units:
  assumes "free_from 0 e" and "e = [] \<or> last e \<noteq> 0" and "buf @ e \<noteq> []"
    and "list_all (\<lambda>(l, d). unit_ok d) us"
  shows "\<exists>d rem. scan_bytes 0 buf (e @ tail_bytes us) = Returns (0, d, left_bytes rem) \<and> d \<noteq> [] \<and>
    delivered (buf @ e) us = d # left_delivered rem \<and> left_ok rem"
  using assms
proof (induction us arbitrary: buf e)
  case Nil
  then have "scan_bytes 0 buf (e @ tail_bytes []) = Returns (0, buf @ e, left_bytes None)"
    using scan_free [of 0 e buf "[]"] by simp
  then show ?case using Nil.prems(3) by (metis delivered.simps(1) left_delivered.simps(1) left_ok.simps(1))
next
  case (Cons u us)
  obtain l d where u: "u = (l, d)" by (cases u)
  have d: "unit_ok d" and us: "list_all (\<lambda>(l, d). unit_ok d) us" using Cons.prems(4) u by auto
  have scan: "scan_bytes 0 buf (e @ tail_bytes (u # us)) =
      (if is_sei (buf @ e) then scan_bytes 0 [] (d @ tail_bytes us)
       else Returns (0, buf @ e, d @ tail_bytes us))"
    using scan_free [OF Cons.prems(1,2)] scan_start_code [OF Cons.prems(3)] u by simp
  show ?case
  proof (cases "is_sei (buf @ e)")
    case True
    then show ?thesis using Cons.IH [of d "[]"] unit_ok_free [OF d] us scan u by auto
  next
    case False
    then show ?thesis using scan u d us Cons.prems(3)
      by (intro exI [of _ "buf @ e"] exI [of _ "Some (d, us)"]) auto
  qed
qed

definition between_units :: "h264_reader \<Rightarrow> (bytes \<times> (bool \<times> bytes) list) option \<Rightarrow> bool" where
  "between_units r rem = (good_source r \<and> left_ok rem \<and> abs_reader r = (True, 0, [], left_bytes rem))"

lemma next_nal_at:
  assumes "good_source r"
    and "next_nal_bytes (abs_reader r) = scan_result True (Returns (0, d, left_bytes rem))"
    and "d \<noteq> []" and "left_ok rem"
  shows "\<exists>r'. next_nal r = Returns (Inr (nal_of d), r') \<and> between_units r' rem"
proof (cases "next_nal r")
  case (Returns xr)
  obtain x r' where xr: "xr = (x, r')" by (cases xr)
  then show ?thesis
    using next_nal_abs [OF assms(1)] next_nal_good [OF assms(1), of x r'] Returns assms(2-4)
    by (auto simp: scan_result_def between_units_def)
next
  case Panics
  then show ?thesis using next_nal_abs [OF assms(1)] assms(2,3) by (auto simp: scan_result_def)
qed

lemma next_nal_between:
  assumes "between_units r (Some (d, us))"
  shows "\<exists>e rem r'. next_nal r = Returns (Inr (nal_of e), r') \<and> between_units r' rem \<and>
    delivered d us = e # left_delivered rem"
proof -
  have d: "unit_ok d" "list_all (\<lambda>(l, d). unit_ok d) us" "good_source r"
    and abs: "abs_reader r = (True, 0, [], d @ tail_bytes us)"
    using assms by (auto simp: between_units_def)
  from scan_units [of d "[]" us] unit_ok_free [OF d(1)] d(2) obtain e rem where
    "scan_bytes 0 [] (d @ tail_bytes us) = Returns (0, e, left_bytes rem)" "e \<noteq> []"
    "delivered d us = e # left_delivered rem" "left_ok rem" by auto
  then show ?thesis using next_nal_at [OF d(3), of e rem] abs by (auto simp: next_nal_bytes_def)
qed

lemma next_nal_end: "between_units r None \<Longrightarrow> \<exists>r'. next_nal r = Returns (Inl EOF, r') \<and> between_units r' None"
proof -
  assume a: "between_units r None"
  then have good: "good_source r" and nb: "next_nal_bytes (abs_reader r) = Returns (Inl EOF, True, 0, [], [])"
    by (auto simp: between_units_def next_nal_bytes_def scan_result_def)
  show ?thesis
    using next_nal_abs [OF good] next_nal_good [OF good] nb
    by (cases "next_nal r") (auto simp: between_units_def)
qed

text \<open>Calling \<^verbatim>\<open>NextNAL\<close> \<open>n\<close> times.\<close>

fun next_nals :: "nat \<Rightarrow> h264_reader \<Rightarrow> (nal_error, nal) result list outcome" where
  "next_nals 0 r = Returns []"
| "next_nals (Suc n) r =
     (case next_nal r of Panics \<Rightarrow> Panics
      | Returns (x, r') \<Rightarrow> map_outcome (Cons x) (next_nals n r'))"

lemma next_nals_end: "between_units r None \<Longrightarrow> next_nals n r = Returns (replicate n (Inl EOF))"
proof (induction n arbitrary: r)
  case 0
  show ?case by simp
next
  case (Suc n)
  then show ?case using next_nal_end by fastforce
qed

lemma next_nals_between:
  "between_units r rem \<Longrightarrow> next_nals (length (left_delivered rem) + n) r =
     Returns (map (\<lambda>d. Inr (nal_of d)) (left_delivered rem) @ replicate n (Inl EOF))"
proof (induction "left_delivered rem" arbitrary: r rem)
  case Nil
  then show ?case using next_nals_end [of r n] left_delivered_Nil [of rem] by simp
next
  case (Cons x xs)
  then obtain d us where rem: "rem = Some (d, us)" by (cases rem) auto
  from next_nal_between [of r d us] Cons.prems rem obtain e rem' r' where
    step: "next_nal r = Returns (Inr (nal_of e), r')" "between_units r' rem'"
      "delivered d us = e # left_delivered rem'" by auto
  then have "xs = left_delivered rem'" "x = e" using Cons.hyps(2) rem by auto
  then show ?case using Cons.hyps(1) [OF _ step(2)] step rem by simp
qed

lemma next_nal_first:
  assumes "good_source r" and "abs_reader r = (False, 0, [], annexb l d us)"
    and "unit_ok d" and "list_all (\<lambda>(l, e). unit_ok e) us"
  shows "\<exists>e rem r'. next_nal r = Returns (Inr (nal_of e), r') \<and> between_units r' rem \<and>
    delivered d us = e # left_delivered rem"
proof (cases l)
  case True
  from scan_units [of d "[]" us] unit_ok_free [OF assms(3)] assms(4) obtain e rem where
    "scan_bytes 0 [] (d @ tail_bytes us) = Returns (0, e, left_bytes rem)" "e \<noteq> []"
    "delivered d us = e # left_delivered rem" "left_ok rem" by auto
  then show ?thesis using next_nal_at [OF assms(1), of e rem] assms(2) True
    by (auto simp: next_nal_bytes_def annexb_def start_code_def Let_def)
next
  case False
  obtain b t where d: "d = b # t" using assms(3) by (cases d) (auto simp: unit_ok_def)
  from scan_units [of t "[b]" us] unit_ok_Cons_free assms(3,4) d obtain e rem where
    "scan_bytes 0 [b] (t @ tail_bytes us) = Returns (0, e, left_bytes rem)" "e \<noteq> []"
    "delivered d us = e # left_delivered rem" "left_ok rem" by auto
  then show ?thesis using next_nal_at [OF assms(1), of e rem] assms(2) False d
    by (auto simp: next_nal_bytes_def annexb_def start_code_def Let_def)
qed

lemma annexb_nals:
  assumes "good_source (fresh_reader s)" and "concat (map result_bytes s) = annexb l d us"
    and "unit_ok d" and "list_all (\<lambda>(l, e). unit_ok e) us"
  shows "next_nals (length (delivered d us) + n) (fresh_reader s) =
    Returns (map (\<lambda>e. Inr (nal_of e)) (delivered d us) @ replicate n (Inl EOF))"
proof -
  have "abs_reader (fresh_reader s) = (False, 0, [], annexb l d us)"
    using assms(2) by (simp add: abs_reader_def abstract_reader_def fresh_reader_def source_bytes_def)
  from next_nal_first [OF assms(1) this assms(3,4)] obtain e rem r' where
    "next_nal (fresh_reader s) = Returns (Inr (nal_of e), r')" "between_units r' rem"
    "delivered d us = e # left_delivered rem" by auto
  then show ?thesis using next_nals_between [of r' rem n] by simp
qed

text \<open>
  C11. Reading an Annex-B stream back: repeated calls of \<^verbatim>\<open>NextNAL\<close> on a fresh reader return the
  units of the stream in order with their headers parsed (SEI units left out, except at the end
  of the stream), whatever the lengths of the start codes and the chunks of the source, then
  \<^verbatim>\<open>io.EOF\<close> for ever; no call panics.
\<close>

theorem annexb_read_back:
  assumes "good_source (fresh_reader s)" and "concat (map result_bytes s) = annexb l d us"
    and "unit_ok d" and "list_all (\<lambda>(l, e). unit_ok e) us"
  shows "next_nals (length (delivered d us) + n) (fresh_reader s) =
    Returns (map (\<lambda>e. Inr (nal_of e)) (delivered d us) @ replicate n (Inl EOF))"
  using assms by (rule annexb_nals)

theorem annexb_read_back_witness:
  "next_nals 3 (fresh_reader [ReadOk [0, 0, 1, 0x67], ReadOk [9, 0, 0, 0, 1, 6, 5], ReadOk [0, 0, 1, 0x65, 3]]) =
   Returns [Inr (nal_of [0x67, 9]), Inr (nal_of [0x65, 3]), Inl EOF]"
proof -
  let ?s = "[ReadOk [0, 0, 1, 0x67], ReadOk [9, 0, 0, 0, 1, 6, 5], ReadOk [0, 0, 1, 0x65, 3]]"
  have sei: "\<not> is_sei [0x67, 9]" "is_sei [6, 5]" by (simp_all add: is_sei_def nal_of_def)
  have ok: "unit_ok [0x67, 9]" "unit_ok [6, 5]" "unit_ok [0x65, 3]"
    by (auto simp: unit_ok_def sublist_Cons_right)
  have "next_nals (length (delivered [0x67, 9] [(True, [6, 5]), (False, [0x65, 3])]) + 1) (fresh_reader ?s) =
      Returns (map (\<lambda>e. Inr (nal_of e)) (delivered [0x67, 9] [(True, [6, 5]), (False, [0x65, 3])]) @ replicate 1 (Inl EOF))"
    by (rule annexb_read_back [where l = False])
      (use ok in \<open>simp_all add: good_source_def fresh_reader_def annexb_def start_code_def\<close>)
  then show ?thesis using sei by (simp add: numeral_3_eq_3)
qed

subsection \<open>An empty unit\<close>

text \<open>Units, each with the start code that follows it.\<close>

definition closed_units :: "(bytes \<times> bool) list \<Rightarrow> bytes" where
  "closed_units us = concat (map (\<lambda>(d, k). d @ start_code k) us)"

lemma scan_closed_unit:
  assumes "unit_ok d"
  shows "scan_bytes 0 [] (d @ start_code k @ r) = (if is_sei d then scan_bytes 0 [] r else Returns (0, d, r))"
  using scan_free [of 0 d "[]" "start_code k @ r"] scan_start_code [of d k r] unit_ok_free [OF assms] by simp

lemma scan_empty_unit: "scan_bytes 0 [] (start_code k @ r) = Panics"
  by (simp add: start_code_def)

lemma next_nals_crash:
  "good_source r \<Longrightarrow> next_nal_bytes (abs_reader r) = scan_result True (scan_bytes 0 [] (closed_units us @ start_code m @ rest)) \<Longrightarrow>
     list_all (\<lambda>(d, k). unit_ok d) us \<Longrightarrow>
     next_nals (length (filter (\<lambda>u. \<not> is_sei (fst u)) us)) r =
       Returns (map (\<lambda>u. Inr (nal_of (fst u))) (filter (\<lambda>u. \<not> is_sei (fst u)) us)) \<and>
     next_nals (length (filter (\<lambda>u. \<not> is_sei (fst u)) us) + 1) r = Panics"
proof (induction us arbitrary: r)
  case Nil
  then have "map_outcome (map_prod id abs_reader) (next_nal r) = Panics"
    using next_nal_abs [OF Nil(1)] by (simp add: closed_units_def scan_empty_unit scan_result_def)
  then show ?case by (cases "next_nal r") auto
next
  case (Cons u us)
  obtain d k where u: "u = (d, k)" by fastforce
  have d: "unit_ok d" "list_all (\<lambda>(d, k). unit_ok d) us" using Cons.prems(3) u by simp_all
  let ?z = "closed_units us @ start_code m @ rest"
  have scan: "scan_bytes 0 [] (closed_units (u # us) @ start_code m @ rest) =
      (if is_sei d then scan_bytes 0 [] ?z else Returns (0, d, ?z))"
    using scan_closed_unit [OF d(1), of k ?z] by (simp add: closed_units_def u)
  show ?case
  proof (cases "is_sei d")
    case True
    then show ?thesis using Cons.IH [OF Cons.prems(1) _ d(2)] Cons.prems(2) scan u by simp
  next
    case False
    have "d \<noteq> []" using d(1) by (simp add: unit_ok_def)
    then have n: "next_nal_bytes (abs_reader r) = Returns (Inr (nal_of d), True, 0, [], ?z)"
      using Cons.prems(2) scan False by (simp add: scan_result_def)
    then obtain r' where r': "next_nal r = Returns (Inr (nal_of d), r')" "abs_reader r' = (True, 0, [], ?z)"
      using next_nal_abs [OF Cons.prems(1)] by (cases "next_nal r") auto
    have "good_source r'" by (rule next_nal_good [OF Cons.prems(1) r'(1)])
    moreover have "next_nal_bytes (abs_reader r') = scan_result True (scan_bytes 0 [] ?z)"
      by (simp add: r'(2) next_nal_bytes_def)
    ultimately show ?thesis using Cons.IH [OF _ _ d(2)] r'(1) False u by simp
  qed
qed

lemma next_nal_bytes_opening:
  assumes "us \<noteq> [] \<or> l" and "list_all (\<lambda>(d, k). unit_ok d) us"
  shows "next_nal_bytes (False, 0, [], start_code l @ closed_units us @ z) =
    scan_result True (scan_bytes 0 [] (closed_units us @ z))"
proof (cases l)
  case True
  then show ?thesis by (simp add: next_nal_bytes_def start_code_def Let_def)
next
  case False
  then obtain d k us' where us: "us = (d, k) # us'" using assms(1) by (cases us) auto
  have ok: "unit_ok d" using assms(2) us by simp
  then obtain b t where d: "d = b # t" by (cases d) (auto simp: unit_ok_def)
  let ?y = "closed_units us' @ z"
  have "next_nal_bytes (False, 0, [], start_code l @ closed_units us @ z) =
      scan_result True (scan_bytes 0 [b] (t @ start_code k @ ?y))"
    using False by (simp add: next_nal_bytes_def start_code_def closed_units_def us d Let_def)
  also have "scan_bytes 0 [b] (t @ start_code k @ ?y) = scan_bytes 0 d (start_code k @ ?y)"
    using scan_free [of 0 t "[b]" "start_code k @ ?y"] unit_ok_Cons_free ok d by simp
  also have "\<dots> = scan_bytes 0 [] (d @ start_code k @ ?y)"
    using scan_start_code [of d k ?y] scan_closed_unit [OF ok, of k ?y] d by simp
  finally show ?thesis by (simp add: closed_units_def us)
qed

text \<open>
  C38. Two start codes with nothing between them crash the reader: the units before them are still
  returned, in order and without the SEI units, and the next call of \<^verbatim>\<open>NextNAL\<close> panics, because
  \<^verbatim>\<open>parseHeader\<close> reads the header byte of an empty unit, instead of skipping the unit or returning
  an error. The two codes may be of three or four bytes, and anywhere in the stream, with one exception:
  at its very start the first of them has four bytes. (A stream that starts with a code of three bytes
  has the next byte taken for data, whatever it is.)
\<close>

theorem empty_unit_panics:
  assumes "good_source (fresh_reader s)"
    and "concat (map result_bytes s) = start_code l @ concat (map (\<lambda>(d, k). d @ start_code k) us) @ start_code m @ rest"
    and "list_all (\<lambda>(d, k). unit_ok d) us" and "us \<noteq> [] \<or> l"
  shows "next_nals (length (filter (\<lambda>u. \<not> is_sei (fst u)) us)) (fresh_reader s) =
      Returns (map (\<lambda>u. Inr (nal_of (fst u))) (filter (\<lambda>u. \<not> is_sei (fst u)) us)) \<and>
    next_nals (length (filter (\<lambda>u. \<not> is_sei (fst u)) us) + 1) (fresh_reader s) = Panics"
proof -
  have "abs_reader (fresh_reader s) = (False, 0, [], start_code l @ closed_units us @ start_code m @ rest)"
    using assms(2)
    by (simp add: abs_reader_def abstract_reader_def fresh_reader_def source_bytes_def closed_units_def)
  then show ?thesis
    using next_nals_crash [OF assms(1) _ assms(3), of m rest] next_nal_bytes_opening [OF assms(4,3), of "start_code m @ rest"]
    by metis
qed

theorem empty_unit_panics_witness:
  "next_nals 1 (fresh_reader [ReadOk [0, 0, 1, 0x67, 9, 0], ReadOk [0, 1, 0, 0, 0, 1, 0x65, 3]]) = Returns [Inr (nal_of [0x67, 9])] \<and>
   next_nals 2 (fresh_reader [ReadOk [0, 0, 1, 0x67, 9, 0], ReadOk [0, 1, 0, 0, 0, 1, 0x65, 3]]) = Panics"
proof -
  let ?s = "[ReadOk [0, 0, 1, 0x67, 9, 0], ReadOk [0, 1, 0, 0, 0, 1, 0x65, 3]]"
  have g: "good_source (fresh_reader ?s)" by (simp add: good_source_def fresh_reader_def)
  have e: "concat (map result_bytes ?s) =
      start_code False @ concat (map (\<lambda>(d, k). d @ start_code k) [([0x67, 9], False)]) @ start_code True @ [0x65, 3]"
    by (simp add: start_code_def)
  have ok: "list_all (\<lambda>(d, k). unit_ok d) [([0x67, 9], False)]" by (auto simp: unit_ok_def sublist_Cons_right)
  have "\<not> is_sei [0x67, 9]" by (simp add: is_sei_def nal_of_def)
  then show ?thesis using empty_unit_panics [OF g e ok] by (simp add: numeral_2_eq_2)
qed

subsection \<open>What a reader gives\<close>

text \<open>The reader gives the units \<open>xs\<close> in order and then the end of the file.\<close>

fun gives :: "nal list \<Rightarrow> h264_reader \<Rightarrow> bool" where
  "gives [] r = (\<exists>r'. next_nal r = Returns (Inl EOF, r'))"
| "gives (x # xs) r = (\<exists>r'. next_nal r = Returns (Inr x, r') \<and> gives xs r')"

lemma next_nals_gives:
  "next_nals (length xs + 1) r = Returns (map Inr xs @ [Inl EOF]) \<Longrightarrow> gives xs r"
proof (induction xs arbitrary: r)
  case Nil
  then show ?case by (cases "next_nal r") (auto split: prod.splits)
next
  case (Cons x xs)
  from Cons.prems obtain y r' where r': "next_nal r = Returns (y, r')" by (cases "next_nal r") auto
  with Cons.prems have "y = Inr x" "next_nals (length xs + 1) r' = Returns (map Inr xs @ [Inl EOF])"
    by (cases "next_nals (length xs + 1) r'"; simp)+
  then show ?case using Cons.IH r' by simp
qed

lemma annexb_gives:
  assumes "good_source (fresh_reader s)" and "concat (map result_bytes s) = annexb l d us"
    and "unit_ok d" and "list_all (\<lambda>(l, e). unit_ok e) us"
  shows "gives (map nal_of (delivered d us)) (fresh_reader s)"
  using annexb_nals [OF assms, of 1] by (intro next_nals_gives) (simp add: comp_def)

end
