(* ===== verification/Rtp_H264.thy ===== *)
theory Rtp_H264
  imports H264_Reader
begin

unbundle bit_operations_syntax

text \<open>
  H.264 in RTP payloads: \<^verbatim>\<open>packageAsSTAPA\<close> (\<^verbatim>\<open>src/rtc/util.go\<close>), which aggregates parameter sets
  for sending; \<^verbatim>\<open>isKeyFrame\<close> (\<^verbatim>\<open>src/rtc/h264writer/h264writer.go\<close>); and the depacketizer the
  recorder uses, \<^verbatim>\<open>H264Packet.Unmarshal\<close> of the vendored \<^verbatim>\<open>pion/rtp\<close>.
\<close>

subsection \<open>Aggregation\<close>

definition stap_entry :: "nal \<Rightarrow> bytes" where
  "stap_entry f =
     [word_of_nat (length (Data f) div 2 ^ 8), word_of_nat (length (Data f))] @ Data f"

definition package_as_stapa :: "nal list \<Rightarrow> nal outcome" where
  "package_as_stapa frames =
     (case frames of
        [] \<Rightarrow> Panics
      | first # _ \<Rightarrow>
          Returns \<lparr> PictureOrderCount = PictureOrderCount first, ForbiddenZeroBit = False,
                    RefIdc = RefIdc first, UnitType = 24,
                    Data = ((push_bit 5 (RefIdc first) AND 0x60) OR 24) # concat (map stap_entry frames) \<rparr>)"

subsection \<open>Depacketizing (vendored pion/rtp)\<close>

datatype codec_error = ErrNilPacket | ErrShortPacket | ErrUnhandledNALUType u8

definition annexb_start_code :: bytes where
  "annexb_start_code = [0, 0, 0, 1]"

text \<open>The STAP-A loop over the payload after the offset; a single byte left makes \<^verbatim>\<open>Uint16\<close> panic.\<close>

fun stapa_loop :: "bytes \<Rightarrow> bytes \<Rightarrow> (codec_error, bytes) result outcome" where
  "stapa_loop [] res = Returns (Inr res)"
| "stapa_loop [b] res = Panics"
| "stapa_loop (hi # lo # rest) res =
     (let naluSize = unat hi * 256 + unat lo in
      if length rest < naluSize then Returns (Inl ErrShortPacket)
      else stapa_loop (drop naluSize rest) (res @ annexb_start_code @ take naluSize rest))"

definition h264_unmarshal :: "bytes option \<Rightarrow> (codec_error, bytes) result outcome" where
  "h264_unmarshal payload =
     (case payload of
        None \<Rightarrow> Returns (Inl ErrNilPacket)
      | Some p \<Rightarrow>
          if length p \<le> 2 then Returns (Inl ErrShortPacket)
          else let naluType = p ! 0 AND 0x1F in
            if 0 < naluType \<and> naluType < 24 then Returns (Inr (annexb_start_code @ p))
            else if naluType = 24 then stapa_loop (drop 1 p) []
            else if naluType = 28 then
              (if p ! 1 AND 0x80 \<noteq> 0
               then Returns (Inr (annexb_start_code @ ((p ! 0 AND 0x60) OR (p ! 1 AND 0x1F)) # drop 2 p))
               else Returns (Inr (drop 2 p)))
            else Returns (Inl (ErrUnhandledNALUType naluType)))"

subsection \<open>Fragments\<close>

text \<open>
  The FU-A packets of a unit with the header byte \<open>b\<close>, for its body cut into the pieces \<open>cs\<close>: the
  type byte keeps the importance of the unit, the second byte its type, with the start bit in the
  first packet and the end bit in the last.
\<close>

fun fua_packets :: "u8 \<Rightarrow> bool \<Rightarrow> bytes list \<Rightarrow> bytes list" where
  "fua_packets b first [] = []"
| "fua_packets b first (c # cs) =
     ((28 OR (b AND 0x60)) # ((b AND 0x1F) OR (if first then 0x80 else if cs = [] then 0x40 else 0)) # c) #
     fua_packets b False cs"

lemma fua_indicator: "((28 OR (b AND 0x60)) AND 0x1F) = (28 :: u8)" "((28 OR (b AND 0x60)) AND 0x60) = (b AND 0x60 :: u8)"
proof -
  have "(b AND 0x60) AND 0x1F = (0 :: u8)" by (simp add: and.assoc)
  then show "((28 OR (b AND 0x60)) AND 0x1F) = (28 :: u8)" by (simp only: bit.conj_disj_distrib2) simp
  show "((28 OR (b AND 0x60)) AND 0x60) = (b AND 0x60 :: u8)"
    by (simp only: bit.conj_disj_distrib2 and.assoc) simp
qed

lemma fua_start_bit:
  "((b AND 0x1F) OR 0x80) AND 0x80 = (0x80 :: u8)" "((b AND 0x1F) OR 0x40) AND 0x80 = (0 :: u8)"
  "(b AND 0x1F) AND 0x80 = (0 :: u8)" "((b AND 0x1F) OR 0x80) AND 0x1F = (b AND 0x1F :: u8)"
  by (simp_all only: bit.conj_disj_distrib2 and.assoc) simp_all

text \<open>The header byte put together again, when its forbidden bit is clear.\<close>

lemma fua_header: "b AND 0x80 = (0 :: u8) \<Longrightarrow> (b AND 0x60) OR (b AND 0x1F) = b"
proof -
  assume z: "b AND 0x80 = (0 :: u8)"
  have "(0x60 OR 0x1F OR 0x80 :: u8) = - 1" by simp
  then have "b = b AND (0x60 OR 0x1F OR 0x80)" by (simp only: and.right_neutral)
  also have "\<dots> = (b AND 0x60) OR (b AND 0x1F) OR (b AND 0x80)" by (simp only: bit.conj_disj_distrib)
  finally show ?thesis using z by simp
qed

lemma unmarshal_first_fragment:
  assumes "c \<noteq> []" and "b AND 0x80 = 0"
  shows "h264_unmarshal (Some ((28 OR (b AND 0x60)) # ((b AND 0x1F) OR 0x80) # c)) =
    Returns (Inr (annexb_start_code @ b # c))"
proof -
  have "length c \<noteq> 0" using assms(1) by simp
  then show ?thesis using fua_header [OF assms(2)]
    by (simp add: h264_unmarshal_def Let_def fua_indicator fua_start_bit)
qed

lemma unmarshal_fragment:
  assumes "c \<noteq> []" and "f = 0 \<or> f = 0x40"
  shows "h264_unmarshal (Some ((28 OR (b AND 0x60)) # ((b AND 0x1F) OR f) # c)) = Returns (Inr c)"
proof -
  have "length c \<noteq> 0" using assms(1) by simp
  then show ?thesis using assms(2)
    by (auto simp add: h264_unmarshal_def Let_def fua_indicator fua_start_bit)
qed

subsection \<open>Key frames\<close>

definition be_word32 :: "u8 \<Rightarrow> u8 \<Rightarrow> u8 \<Rightarrow> u8 \<Rightarrow> 32 word" where
  "be_word32 a b c d =
     push_bit 24 (ucast a) OR push_bit 16 (ucast b) OR push_bit 8 (ucast c) OR ucast d"

definition is_key_frame :: "bytes \<Rightarrow> bool" where
  "is_key_frame d =
     (case d of
        b0 # b1 # b2 # b3 # _ \<Rightarrow>
          (let word = be_word32 b0 b1 b2 b3 in
           if drop_bit 24 (word AND 0x1F000000) = 24 \<and> word AND 0x0000001F = 7 then True
           else if drop_bit 24 (word AND 0x1F000000) = 7 then True
           else False)
      | _ \<Rightarrow> False)"

lemma type_masks:
  "(0x1F000000 :: 32 word) = push_bit 24 (mask 5)" "(0x1F :: 32 word) = mask 5" "(0x1F :: u8) = mask 5"
  by (simp_all add: mask_eq_exp_minus_1 push_bit_eq_mult)

lemma be_word32_high: "drop_bit 24 (be_word32 a b c d AND 0x1F000000) = ucast (a AND 0x1F)"
  unfolding be_word32_def type_masks
  by (rule bit_word_eqI) (auto simp: bit_simps dest: bit_imp_le_length)

lemma be_word32_low: "be_word32 a b c d AND 0x1F = ucast (d AND 0x1F)"
  unfolding be_word32_def type_masks
  by (rule bit_word_eqI) (auto simp: bit_simps dest: bit_imp_le_length)

lemma ucast_32_inj: "(ucast (x :: u8) :: 32 word) = ucast y \<longleftrightarrow> x = y"
proof -
  have "(ucast (ucast z :: 32 word) :: u8) = z" for z :: u8
    by (rule bit_word_eqI) (simp add: bit_simps)
  then show ?thesis by metis
qed

text \<open>The word comparison of \<^verbatim>\<open>isKeyFrame\<close> in terms of the bytes it reads.\<close>

lemma is_key_frame_bytes:
  "is_key_frame d \<longleftrightarrow> 4 \<le> length d \<and>
     (d ! 0 AND 0x1F = 24 \<and> d ! 3 AND 0x1F = 7 \<or> d ! 0 AND 0x1F = 7)"
proof (cases "4 \<le> length d")
  case True
  then obtain b0 b1 b2 b3 r where d: "d = b0 # b1 # b2 # b3 # r"
    by (cases d; cases "tl d"; cases "tl (tl d)"; cases "tl (tl (tl d))") auto
  have "(24 :: 32 word) = ucast (24 :: u8)" "(7 :: 32 word) = ucast (7 :: u8)" by simp_all
  then have "ucast (x :: u8) = (24 :: 32 word) \<longleftrightarrow> x = 24" "ucast (x :: u8) = (7 :: 32 word) \<longleftrightarrow> x = 7" for x
    using ucast_32_inj by metis+
  moreover have "is_key_frame d \<longleftrightarrow> ucast (b0 AND 0x1F) = (24 :: 32 word) \<and> ucast (b3 AND 0x1F) = (7 :: 32 word)
      \<or> ucast (b0 AND 0x1F) = (7 :: 32 word)"
    unfolding d is_key_frame_def list.case Let_def be_word32_high be_word32_low by auto
  ultimately show ?thesis by (simp add: d)
next
  case False
  then show ?thesis
    by (cases d; cases "tl d"; cases "tl (tl d)"; cases "tl (tl (tl d))") (auto simp: is_key_frame_def)
qed

subsection \<open>Properties\<close>

lemma stap_entry_size:
  "length (Data f) < 2 ^ 16 \<Longrightarrow>
     unat (word_of_nat (length (Data f) div 2 ^ 8) :: u8) * 256 + unat (word_of_nat (length (Data f)) :: u8) =
     length (Data f)"
  by (simp add: unat_of_nat)

lemma stapa_loop_entry:
  "length (Data f) < 2 ^ 16 \<Longrightarrow>
   stapa_loop (stap_entry f @ rest) res = stapa_loop rest (res @ annexb_start_code @ Data f)"
  using stap_entry_size [of f] by (simp add: stap_entry_def Let_def)

lemma stapa_loop_entries:
  "list_all (\<lambda>f. length (Data f) < 2 ^ 16) fs \<Longrightarrow>
   stapa_loop (concat (map stap_entry fs)) res =
     Returns (Inr (res @ concat (map (\<lambda>f. annexb_start_code @ Data f) fs)))"
proof (induction fs arbitrary: res)
  case Nil
  show ?case by simp
next
  case (Cons f fs)
  then show ?case using stapa_loop_entry [of f "concat (map stap_entry fs)" res] by simp
qed

lemma stap_header_type: "((push_bit 5 r AND 0x60) OR 24) AND 0x1F = (24 :: u8)"
proof -
  have "(0x60 :: u8) AND 0x1F = 0" by simp
  then have "(push_bit 5 r AND 0x60) AND 0x1F = 0" by (simp only: and.assoc) simp
  then show ?thesis by (simp only: bit.conj_disj_distrib2 and.assoc) simp
qed

lemma stapa_loop_trailing:
  "list_all (\<lambda>f. length (Data f) < 2 ^ 16) fs \<Longrightarrow> stapa_loop (concat (map stap_entry fs) @ [b]) res = Panics"
proof (induction fs arbitrary: res)
  case (Cons f fs)
  then show ?case using stapa_loop_entry [of f "concat (map stap_entry fs) @ [b]" res] by simp
qed simp

lemma unmarshal_stapa_entries:
  assumes "package_as_stapa fs = Returns pkt" and "list_all (\<lambda>f. length (Data f) < 2 ^ 16) fs"
  shows "h264_unmarshal (Some (Data pkt)) =
    Returns (Inr (concat (map (\<lambda>f. annexb_start_code @ Data f) fs)))"
proof -
  obtain f rest where fs: "fs = f # rest"
    and data: "Data pkt = ((push_bit 5 (RefIdc f) AND 0x60) OR 24) # concat (map stap_entry fs)"
    using assms(1) by (auto simp: package_as_stapa_def split: list.splits)
  have "\<not> length (Data pkt) \<le> 2" by (simp add: data fs stap_entry_def)
  then show ?thesis
    using stapa_loop_entries [OF assms(2), of "[]"] stap_header_type
    by (simp add: h264_unmarshal_def data Let_def)
qed

text \<open>
  C16. Aggregation is undone by the depacketizer: unpacking the STAP-A packet of a list of units,
  each shorter than 64 KiB, gives the units in order, each behind a start code. (A longer unit
  has its length truncated to 16 bits.)
\<close>

theorem unmarshal_package:
  assumes "package_as_stapa fs = Returns pkt" and "list_all (\<lambda>f. length (Data f) < 2 ^ 16) fs"
  shows "h264_unmarshal (Some (Data pkt)) =
    Returns (Inr (concat (map (\<lambda>f. annexb_start_code @ Data f) fs)))"
  using assms by (rule unmarshal_stapa_entries)

theorem unmarshal_package_witness:
  "\<exists>pkt. package_as_stapa [nal_of [0x67, 1], nal_of [0x68, 2]] = Returns pkt \<and>
     h264_unmarshal (Some (Data pkt)) = Returns (Inr [0, 0, 0, 1, 0x67, 1, 0, 0, 0, 1, 0x68, 2])"
proof -
  obtain pkt where p: "package_as_stapa [nal_of [0x67, 1], nal_of [0x68, 2]] = Returns pkt"
    by (simp add: package_as_stapa_def)
  show ?thesis using p unmarshal_package [OF p] by (simp add: nal_of_def annexb_start_code_def)
qed

lemma unmarshal_trailing:
  assumes "package_as_stapa fs = Returns pkt" and "list_all (\<lambda>f. length (Data f) < 2 ^ 16) fs"
  shows "h264_unmarshal (Some (Data pkt @ [b])) = Panics"
proof -
  obtain f rest where fs: "fs = f # rest"
    and data: "Data pkt = ((push_bit 5 (RefIdc f) AND 0x60) OR 24) # concat (map stap_entry fs)"
    using assms(1) by (auto simp: package_as_stapa_def split: list.splits)
  have "\<not> length (Data pkt) \<le> 1" by (simp add: data fs stap_entry_def)
  then show ?thesis
    using stapa_loop_trailing [OF assms(2), of b "[]"] stap_header_type
    by (simp add: h264_unmarshal_def data Let_def)
qed

lemma sps_packet_is_key:
  assumes "package_as_stapa (sps # rest) = Returns pkt"
    and "Data sps \<noteq> []" and "UnitType (nal_of (Data sps)) = NalUnitTypeSPS"
  shows "is_key_frame (Data pkt @ rest_bytes)"
proof -
  have data: "Data pkt = ((push_bit 5 (RefIdc sps) AND 0x60) OR 24) # concat (map stap_entry (sps # rest))"
    using assms(1) by (auto simp: package_as_stapa_def)
  obtain b t where b: "Data sps = b # t" using assms(2) by (cases "Data sps") auto
  have "b AND 0x1F = 7" using assms(3) b by (simp add: nal_of_def)
  then show ?thesis
    using stap_header_type by (simp add: is_key_frame_bytes data stap_entry_def b)
qed

text \<open>
  The packet the sender makes of a sequence parameter set and what follows it is a key frame
  for the recorder, which starts writing with it.
\<close>

theorem packaged_sps_is_key_frame:
  assumes "package_as_stapa (sps # rest) = Returns pkt"
    and "Data sps \<noteq> []" and "UnitType (nal_of (Data sps)) = NalUnitTypeSPS"
  shows "is_key_frame (Data pkt)"
  using sps_packet_is_key [OF assms, of "[]"] by simp

theorem packaged_sps_is_key_frame_witness:
  "\<exists>pkt. package_as_stapa [nal_of [0x67, 1], nal_of [0x68, 2]] = Returns pkt \<and> is_key_frame (Data pkt)"
proof -
  obtain pkt where p: "package_as_stapa [nal_of [0x67, 1], nal_of [0x68, 2]] = Returns pkt"
    by (simp add: package_as_stapa_def)
  show ?thesis using p packaged_sps_is_key_frame [OF p] by (simp add: nal_of_def)
qed

end
