(* ===== verification/Interceptor.thy ===== *)
theory Interceptor
  imports Prelude
begin

text \<open>
  The RTP and RTCP interceptors of \<^verbatim>\<open>src/rtc/interceptor.go\<close> and the two hooks the ingesters
  install in an RTP interceptor (\<^verbatim>\<open>src/rtc/ingester.go\<close>). A reader or writer is a function of the
  state of what is behind it; a hook calls the next writer that is bound when it runs, so it is a
  function of that writer. A nil next reader or writer panics when it is called. The attributes
  argument, which every function only passes on, is left out.
\<close>

unbundle bit_operations_syntax

record rtp_header =
  Marker :: bool
  PayloadType :: u8
  SequenceNumber :: "16 word"
  Timestamp :: "32 word"
  SSRC :: "32 word"
  Extensions :: "(u8 \<times> bytes) list"

type_synonym ('e, 's) rtp_writer = "rtp_header \<Rightarrow> bytes \<Rightarrow> 's \<Rightarrow> (('e, nat) result \<times> 's) outcome"
type_synonym ('e, 's) rtp_reader = "nat \<Rightarrow> 's \<Rightarrow> (('e, bytes) result \<times> 's) outcome"
type_synonym ('p, 'e, 's) rtcp_writer = "'p list \<Rightarrow> 's \<Rightarrow> (('e, nat) result \<times> 's) outcome"

subsection \<open>The RTP interceptor\<close>

record ('e, 's) rtp_interceptor =
  rtpReader :: "(('e, 's) rtp_reader option \<Rightarrow> ('e, 's) rtp_reader) option"
  nextRTPReader :: "('e, 's) rtp_reader option"
  rtpWriter :: "(('e, 's) rtp_writer option \<Rightarrow> ('e, 's) rtp_writer) option"
  nextRTPWriter :: "('e, 's) rtp_writer option"

definition empty_rtp_interceptor :: "('e, 's) rtp_interceptor" where
  "empty_rtp_interceptor = \<lparr> rtpReader = None, nextRTPReader = None, rtpWriter = None, nextRTPWriter = None \<rparr>"

definition new_rtp_interceptor ::
  "(('e, 's) rtp_interceptor \<Rightarrow> ('e, 's) rtp_interceptor) list \<Rightarrow> ('e, 's) rtp_interceptor" where
  "new_rtp_interceptor options = fold (\<lambda>opt v. opt v) options empty_rtp_interceptor"

fun call_writer :: "('e, 's) rtp_writer option \<Rightarrow> ('e, 's) rtp_writer" where
  "call_writer (Some w) header payload s = w header payload s"
| "call_writer None header payload s = Panics"

fun call_reader :: "('e, 's) rtp_reader option \<Rightarrow> ('e, 's) rtp_reader" where
  "call_reader (Some r) n s = r n s"
| "call_reader None n s = Panics"

definition rtp_write :: "('e, 's) rtp_interceptor \<Rightarrow> ('e, 's) rtp_writer" where
  "rtp_write v =
     (case rtpWriter v of
        Some hook \<Rightarrow> hook (nextRTPWriter v)
      | None \<Rightarrow> call_writer (nextRTPWriter v))"

definition rtp_read :: "('e, 's) rtp_interceptor \<Rightarrow> ('e, 's) rtp_reader" where
  "rtp_read v =
     (case rtpReader v of
        Some hook \<Rightarrow> hook (nextRTPReader v)
      | None \<Rightarrow> call_reader (nextRTPReader v))"

text \<open>Binding returns the interceptor itself: the stack writes to (reads from) it from now on.\<close>

definition bind_local_stream ::
  "('e, 's) rtp_writer \<Rightarrow> ('e, 's) rtp_interceptor \<Rightarrow> ('e, 's) rtp_writer \<times> ('e, 's) rtp_interceptor" where
  "bind_local_stream writer v =
     (let v1 = v\<lparr> nextRTPWriter := Some writer \<rparr> in (rtp_write v1, v1))"

definition bind_remote_stream ::
  "('e, 's) rtp_reader \<Rightarrow> ('e, 's) rtp_interceptor \<Rightarrow> ('e, 's) rtp_reader \<times> ('e, 's) rtp_interceptor" where
  "bind_remote_stream reader v =
     (let v1 = v\<lparr> nextRTPReader := Some reader \<rparr> in (rtp_read v1, v1))"

definition unbind_stream :: "('e, 's) rtp_interceptor \<Rightarrow> ('e, 's) rtp_interceptor" where
  "unbind_stream v = v"

subsection \<open>The RTCP interceptor and the bypass\<close>

record ('p, 'e, 's) rtcp_interceptor =
  rtcpReader :: "(('e, 's) rtp_reader option \<Rightarrow> ('e, 's) rtp_reader) option"
  nextRTCPReader :: "('e, 's) rtp_reader option"
  rtcpWriter :: "(('p, 'e, 's) rtcp_writer option \<Rightarrow> ('p, 'e, 's) rtcp_writer) option"
  nextRTCPWriter :: "('p, 'e, 's) rtcp_writer option"

definition empty_rtcp_interceptor :: "('p, 'e, 's) rtcp_interceptor" where
  "empty_rtcp_interceptor =
     \<lparr> rtcpReader = None, nextRTCPReader = None, rtcpWriter = None, nextRTCPWriter = None \<rparr>"

definition new_rtcp_interceptor ::
  "(('p, 'e, 's) rtcp_interceptor \<Rightarrow> ('p, 'e, 's) rtcp_interceptor) list \<Rightarrow> ('p, 'e, 's) rtcp_interceptor" where
  "new_rtcp_interceptor options = fold (\<lambda>opt v. opt v) options empty_rtcp_interceptor"

definition rtcp_read :: "('p, 'e, 's) rtcp_interceptor \<Rightarrow> ('e, 's) rtp_reader" where
  "rtcp_read v =
     (case rtcpReader v of
        Some hook \<Rightarrow> hook (nextRTCPReader v)
      | None \<Rightarrow> call_reader (nextRTCPReader v))"

definition rtcp_write :: "('p, 'e, 's) rtcp_interceptor \<Rightarrow> ('p, 'e, 's) rtcp_writer" where
  "rtcp_write v =
     (case rtcpWriter v of
        Some hook \<Rightarrow> hook (nextRTCPWriter v)
      | None \<Rightarrow> (case nextRTCPWriter v of
          Some w \<Rightarrow> w
        | None \<Rightarrow> (\<lambda>pkts s. Panics)))"

definition bind_rtcp_reader ::
  "('e, 's) rtp_reader \<Rightarrow> ('p, 'e, 's) rtcp_interceptor \<Rightarrow> ('e, 's) rtp_reader \<times> ('p, 'e, 's) rtcp_interceptor" where
  "bind_rtcp_reader reader v =
     (let v1 = v\<lparr> nextRTCPReader := Some reader \<rparr> in (rtcp_read v1, v1))"

definition bind_rtcp_writer ::
  "('p, 'e, 's) rtcp_writer \<Rightarrow> ('p, 'e, 's) rtcp_interceptor \<Rightarrow>
   ('p, 'e, 's) rtcp_writer \<times> ('p, 'e, 's) rtcp_interceptor" where
  "bind_rtcp_writer writer v =
     (let v1 = v\<lparr> nextRTCPWriter := Some writer \<rparr> in (rtcp_write v1, v1))"

definition bypass :: "'w \<Rightarrow> 'w" where
  "bypass w = w"

subsection \<open>The hooks of the ingesters\<close>

text \<open>The marker of a STAP-A packet is cleared.\<close>

definition strip_marker_hook :: "('e, 's) rtp_writer option \<Rightarrow> ('e, 's) rtp_writer" where
  "strip_marker_hook nxt header payload s =
     (let h = (if 0 < length payload \<and> payload ! 0 AND 0x1F = 24 then header\<lparr> Marker := False \<rparr> else header)
      in call_writer nxt h payload s)"

text \<open>
  The audio level goes into a header extension when one was negotiated. \<open>marshal\<close> is the encoding
  of the zero \<^verbatim>\<open>AudioLevelExtension\<close>, \<open>set_extension\<close> the header's own method.
\<close>

definition audio_level_hook ::
  "(u8 \<Rightarrow> bytes \<Rightarrow> rtp_header \<Rightarrow> rtp_header) \<Rightarrow> ('e, bytes) result \<Rightarrow> u8 option \<Rightarrow>
   ('e, 's) rtp_writer option \<Rightarrow> ('e, 's) rtp_writer" where
  "audio_level_hook set_extension marshal level nxt header payload s =
     (case level of
        None \<Rightarrow> call_writer nxt header payload s
      | Some ident \<Rightarrow>
          (case marshal of
             Inl err \<Rightarrow> Returns (Inl err, s)
           | Inr p \<Rightarrow> call_writer nxt (set_extension ident p header) payload s))"

text \<open>A hook is installed once: \<^verbatim>\<open>if ri.rtpWriter == nil { ri.rtpWriter = ... }\<close>.\<close>

definition install_hook ::
  "(('e, 's) rtp_writer option \<Rightarrow> ('e, 's) rtp_writer) \<Rightarrow> ('e, 's) rtp_interceptor \<Rightarrow> ('e, 's) rtp_interceptor" where
  "install_hook hook ri = (if rtpWriter ri = None then ri\<lparr> rtpWriter := Some hook \<rparr> else ri)"

lemma install_hook_twice: "install_hook g (install_hook h v) = install_hook h v"
  by (simp add: install_hook_def)

text \<open>
  What leaves the marker interceptor, wherever it was bound: with the hook installed a packet
  goes to the next writer unchanged, except that the marker of an aggregation packet is cleared;
  a later installation changes nothing, and before it packets pass through.
\<close>

theorem marker_interceptor_writes:
  "fst (bind_local_stream w (install_hook g (install_hook strip_marker_hook empty_rtp_interceptor))) h p s =
     w (if p \<noteq> [] \<and> hd p AND 0x1F = 24 then h\<lparr> Marker := False \<rparr> else h) p s \<and>
   fst (bind_local_stream w empty_rtp_interceptor) h p s = w h p s"
  by (cases p) (simp_all add: bind_local_stream_def rtp_write_def install_hook_def strip_marker_hook_def
      empty_rtp_interceptor_def Let_def)

end
