(* ===== verification/Ingester.thy ===== *)
theory Ingester
  imports H264_Stream Rtp_H264 Interceptor Go_Strings
begin

text \<open>
  The ingesters of \<^verbatim>\<open>src/rtc/ingester.go\<close>, which play a file into a track, and the wall clock of
  \<^verbatim>\<open>src/rtc/util.go\<close> that paces them. Times are nanoseconds. The context of a call is the number
  of the tests \<^verbatim>\<open>ctx.Err() == nil\<close> that still find it alive, so every loop ends; theorems hold for
  every such number. The track, the files and the ogg reader are third-party: functions of a
  state of theirs.
\<close>

subsection \<open>The wall clock\<close>

record wall_clock =
  clockStart :: int
  clockDuration :: int

definition new_wall_clock :: "int \<Rightarrow> wall_clock" where
  "new_wall_clock now = \<lparr> clockStart = now, clockDuration = 0 \<rparr>"

definition tick :: "int \<Rightarrow> int \<Rightarrow> wall_clock \<Rightarrow> int \<times> wall_clock" where
  "tick now d v =
     (let v1 = v\<lparr> clockDuration := clockDuration v + d \<rparr>;
          wc = now - clockStart v1;
          re = clockDuration v1 - wc
      in (if 30000000 < re then re else 0, v1))"

text \<open>What follows a sample: \<^verbatim>\<open>if d := clock.Tick(...); d > 0 { time.Sleep(d) }\<close>. Result: the time after it.\<close>

definition pace :: "int \<Rightarrow> int \<Rightarrow> wall_clock \<Rightarrow> int \<times> wall_clock" where
  "pace now d v = (let (w, v1) = tick now d v in (if 0 < w then now + w else now, v1))"

subsection \<open>The ingesters\<close>

record ('e, 's) video_ingester =
  sourceVideo :: string
  fps :: int
  markerInterceptor :: "('e, 's) rtp_interceptor"
  sVideoSender :: bool

record ('e, 's) audio_ingester =
  sourceAudio :: string
  audioLevelInterceptor :: "('e, 's) rtp_interceptor"
  sAudioSender :: bool

definition new_video_ingester :: "string \<Rightarrow> ('e, 's) video_ingester" where
  "new_video_ingester src =
     \<lparr> sourceVideo = src, fps = 0, markerInterceptor = empty_rtp_interceptor, sVideoSender = False \<rparr>"

definition new_audio_ingester :: "string \<Rightarrow> ('e, 's) audio_ingester" where
  "new_audio_ingester src =
     \<lparr> sourceAudio = src, audioLevelInterceptor = empty_rtp_interceptor, sAudioSender = False \<rparr>"

text \<open>\<open>Close\<close> stops the sender once; the result is the number of times it was stopped.\<close>

definition close_video :: "('e, 's) video_ingester \<Rightarrow> nat \<times> ('e, 's) video_ingester" where
  "close_video v = (if sVideoSender v then (1, v\<lparr> sVideoSender := False \<rparr>) else (0, v))"

definition close_audio :: "('e, 's) audio_ingester \<Rightarrow> nat \<times> ('e, 's) audio_ingester" where
  "close_audio v = (if sAudioSender v then (1, v\<lparr> sAudioSender := False \<rparr>) else (0, v))"

datatype 'io ingest_error =
  Create_Track 'io | Add_Track 'io | Open_File string 'io | Open_H264 nal_error | Open_Ogg 'io |
  Read_H264 nal_error | Read_Ogg 'io | Read_Pcmu 'io | Write_Sample 'io | End_Of_File | Cancelled

text \<open>The codec a track is created with: MIME type, clock rate, channels.\<close>

definition video_codec :: "string \<Rightarrow> string \<times> nat" where
  "video_codec src = (if has_suffix src ''.ivf'' then ''video/VP8'' else ''video/H264'', 90000)"

definition audio_codec :: "string \<Rightarrow> string \<times> nat \<times> nat" where
  "audio_codec src =
     (if has_suffix src ''.g711u'' then (''audio/PCMU'', 8000, 1) else (''audio/opus'', 48000, 2))"

definition add_video_track ::
  "(string \<times> nat \<Rightarrow> 'io option) \<Rightarrow> 'io option \<Rightarrow> int \<Rightarrow> ('e, 's) video_ingester \<Rightarrow>
   'io ingest_error option \<times> ('e, 's) video_ingester" where
  "add_video_track create_track pc_add_track f v =
     (let v1 = v\<lparr> fps := f \<rparr> in
      case create_track (video_codec (sourceVideo v1)) of
        Some e \<Rightarrow> (Some (Create_Track e), v1)
      | None \<Rightarrow>
          (case pc_add_track of
             Some e \<Rightarrow> (Some (Add_Track e), v1\<lparr> sVideoSender := False \<rparr>)
           | None \<Rightarrow> (None, v1\<lparr> sVideoSender := True \<rparr>)))"

definition add_audio_track ::
  "(string \<times> nat \<times> nat \<Rightarrow> 'io option) \<Rightarrow> 'io option \<Rightarrow> ('e, 's) audio_ingester \<Rightarrow>
   'io ingest_error option \<times> ('e, 's) audio_ingester" where
  "add_audio_track create_track pc_add_track v =
     (case create_track (audio_codec (sourceAudio v)) of
        Some e \<Rightarrow> (Some (Create_Track e), v)
      | None \<Rightarrow>
          (case pc_add_track of
             Some e \<Rightarrow> (Some (Add_Track e), v\<lparr> sAudioSender := False \<rparr>)
           | None \<Rightarrow> (None, v\<lparr> sAudioSender := True \<rparr>)))"

subsection \<open>Playing video\<close>

text \<open>The duration of a sample; the division is unsigned, and by zero it panics.\<close>

definition sample_duration :: "int \<Rightarrow> int outcome" where
  "sample_duration f =
     (let d = f mod 2 ^ 64 in if d = 0 then Panics else Returns (1000000 * 1000 div d))"

text \<open>
  One access unit: the parameter sets read on the way, and all units up to and including the first
  that is not one. The reader's end or error ends the whole ingestion.
\<close>

type_synonym gathered = "nat \<times> h264_reader \<times> nal option \<times> nal option \<times> nal list"

fun gather :: "nat \<Rightarrow> h264_reader \<Rightarrow> nal option \<Rightarrow> nal option \<Rightarrow> nal list \<Rightarrow> ((nal_error, gathered) result) outcome" where
  "gather 0 r sps pps oFrames = Returns (Inr (0, r, sps, pps, oFrames))"
| "gather (Suc n) r sps pps oFrames =
     (case next_nal r of
        Panics \<Rightarrow> Panics
      | Returns (Inl e, r1) \<Rightarrow> Returns (Inl e)
      | Returns (Inr frame, r1) \<Rightarrow>
          if UnitType frame = NalUnitTypeSPS then gather n r1 (Some frame) pps (oFrames @ [frame])
          else if UnitType frame = NalUnitTypePPS then gather n r1 sps (Some frame) (oFrames @ [frame])
          else Returns (Inr (n, r1, sps, pps, oFrames @ [frame])))"

definition is_param :: "nal \<Rightarrow> bool" where
  "is_param f = (UnitType f = NalUnitTypeSPS \<or> UnitType f = NalUnitTypePPS)"

definition build_frames :: "nal option \<Rightarrow> nal option \<Rightarrow> nal list \<Rightarrow> nal list outcome" where
  "build_frames sps pps oFrames =
     (let rest = filter (\<lambda>f. \<not> is_param f) oFrames in
      case (sps, pps) of
        (Some s, Some p) \<Rightarrow>
          (case package_as_stapa [s, p] of
             Panics \<Rightarrow> Panics
           | Returns stapA \<Rightarrow> Returns (stapA # rest))
      | _ \<Rightarrow> Returns rest)"

text \<open>Samples: all but the last of a unit have duration zero.\<close>

fun to_samples :: "int \<Rightarrow> nal list \<Rightarrow> (bytes \<times> int) list" where
  "to_samples d [] = []"
| "to_samples d [f] = [(Data f, d)]"
| "to_samples d (f # fs) = (Data f, 0) # to_samples d fs"

fun write_samples ::
  "('s \<Rightarrow> bytes \<times> int \<Rightarrow> 'io option \<times> 's) \<Rightarrow> 's \<Rightarrow> (bytes \<times> int) list \<Rightarrow> 'io option \<times> 's" where
  "write_samples wr s [] = (None, s)"
| "write_samples wr s (x # xs) =
     (case wr s x of
        (Some e, s1) \<Rightarrow> (Some e, s1)
      | (None, s1) \<Rightarrow> write_samples wr s1 xs)"

text \<open>
  The loop. \<open>work\<close> is the time reading and writing a unit takes; the clock is read at the tick. The
  result is the reason to stop, the track's state, and the clock.
\<close>

lemma gather_left: "gather n r sps pps os = Returns (Inr (n', r', s', p', os')) \<Longrightarrow> n' \<le> n"
proof (induction n r sps pps os rule: gather.induct)
  case (2 n r sps pps os)
  then show ?case
    by (simp split: outcome.splits prod.splits sum.splits if_splits) force+
qed simp

function video_loop ::
  "('s \<Rightarrow> bytes \<times> int \<Rightarrow> 'io option \<times> 's) \<Rightarrow> (nat \<Rightarrow> int) \<Rightarrow> int \<Rightarrow> nat \<Rightarrow> h264_reader \<Rightarrow> 's \<Rightarrow> int \<Rightarrow>
   wall_clock \<Rightarrow> ('io ingest_error \<times> 's \<times> int \<times> wall_clock) outcome" where
  "video_loop wr work d 0 r s now clk = Returns (Cancelled, s, now, clk)"
| "video_loop wr work d (Suc n) r s now clk =
     (case gather n r None None [] of
        Panics \<Rightarrow> Panics
      | Returns (Inl EOF) \<Rightarrow> Returns (End_Of_File, s, now, clk)
      | Returns (Inl e) \<Rightarrow> Returns (Read_H264 e, s, now, clk)
      | Returns (Inr (n1, r1, sps, pps, oFrames)) \<Rightarrow>
          (case build_frames sps pps oFrames of
             Panics \<Rightarrow> Panics
           | Returns frames \<Rightarrow>
               (case write_samples wr s (to_samples d frames) of
                  (Some e, s1) \<Rightarrow> Returns (Write_Sample e, s1, now, clk)
                | (None, s1) \<Rightarrow>
                    let (now1, clk1) = pace (now + work n1) d clk
                    in video_loop wr work d n1 r1 s1 now1 clk1)))"
  by pat_completeness auto
termination
  by (relation "measure (\<lambda>(wr, work, d, n, r, s, now, clk). n)") (auto dest: gather_left)

text \<open>
  Before each sample the hook is installed in the interceptor when there is none; the track's
  write goes through that interceptor.
\<close>

definition write_hooked ::
  "(('e, 'z) rtp_writer option \<Rightarrow> ('e, 'z) rtp_writer) \<Rightarrow>
   (('e, 'z) rtp_interceptor \<Rightarrow> 's \<Rightarrow> bytes \<times> int \<Rightarrow> 'io option \<times> 's) \<Rightarrow>
   ('e, 'z) rtp_interceptor \<times> 's \<Rightarrow> bytes \<times> int \<Rightarrow> 'io option \<times> (('e, 'z) rtp_interceptor \<times> 's)" where
  "write_hooked hook wr = (\<lambda>(ri, s) x.
     let ri1 = install_hook hook ri; (e, s1) = wr ri1 s x in (e, (ri1, s1)))"

definition ingest_video ::
  "(string \<Rightarrow> ('io, read_result list) result) \<Rightarrow>
   (('e, 'z) rtp_interceptor \<Rightarrow> 's \<Rightarrow> bytes \<times> int \<Rightarrow> 'io option \<times> 's) \<Rightarrow> (nat \<Rightarrow> int) \<Rightarrow>
   nat \<Rightarrow> int \<Rightarrow> ('e, 'z) video_ingester \<Rightarrow> 's \<Rightarrow>
   ('io ingest_error \<times> (('e, 'z) rtp_interceptor \<times> 's) \<times> int \<times> wall_clock) outcome" where
  "ingest_video open_file wr work ctx now v s =
     (case open_file (sourceVideo v) of
        Inl e \<Rightarrow> Returns (Open_File (sourceVideo v) e, (markerInterceptor v, s), now, new_wall_clock now)
      | Inr f \<Rightarrow>
          (case new_reader (Some f) of
             Inl e \<Rightarrow> Returns (Open_H264 e, (markerInterceptor v, s), now, new_wall_clock now)
           | Inr h264 \<Rightarrow>
               (case sample_duration (fps v) of
                  Panics \<Rightarrow> Panics
                | Returns d \<Rightarrow> video_loop (write_hooked strip_marker_hook wr) work d ctx h264
                    (markerInterceptor v, s) now (new_wall_clock now))))"

subsection \<open>Pacing\<close>

text \<open>How far the time played is ahead of the time passed.\<close>

definition ahead :: "int \<Rightarrow> wall_clock \<Rightarrow> int" where
  "ahead now v = clockStart v + clockDuration v - now"

lemma pace_ahead:
  assumes "pace now d v = (now', v')"
  shows "ahead now' v' \<le> 30000000" "now \<le> now'" "clockStart v' = clockStart v"
    "clockDuration v' = clockDuration v + d"
  using assms by (auto simp: pace_def tick_def ahead_def Let_def split: if_splits)

lemma video_loop_ahead:
  "video_loop wr work d n r s now clk = Returns (why, s', now', clk') \<Longrightarrow> ahead now clk \<le> 30000000 \<Longrightarrow>
     ahead now' clk' \<le> 30000000 \<and> clockStart clk' = clockStart clk"
proof (induction wr work d n r s now clk rule: video_loop.induct)
  case (2 wr work d n r s now clk)
  show ?case
  proof (cases "\<exists>n1 r1 sps pps os frames s1. gather n r None None [] = Returns (Inr (n1, r1, sps, pps, os)) \<and>
      build_frames sps pps os = Returns frames \<and> write_samples wr s (to_samples d frames) = (None, s1)")
    case False
    then show ?thesis using 2(2,3)
      by (auto split: outcome.splits sum.splits prod.splits nal_error.splits option.splits)
  next
    case True
    then obtain n1 r1 sps pps os frames s1 where g: "gather n r None None [] = Returns (Inr (n1, r1, sps, pps, os))"
      "build_frames sps pps os = Returns frames" "write_samples wr s (to_samples d frames) = (None, s1)" by blast
    obtain now1 clk1 where p: "pace (now + work n1) d clk = (now1, clk1)" by fastforce
    have "video_loop wr work d n1 r1 s1 now1 clk1 = Returns (why, s', now', clk')"
      using 2(2) g p by simp
    from 2(1) [OF g(1) refl refl refl refl refl g(2) g(3) [symmetric] refl p [symmetric] refl this]
    show ?thesis using pace_ahead [OF p] by simp
  qed
qed auto

subsection \<open>What is played\<close>

text \<open>
  The samples of a list of units: parameter sets wait for the next other unit and go before it, in
  one aggregation packet, when both kinds were seen; that packet takes no time.
\<close>

definition unit_samples :: "int \<Rightarrow> nal option \<Rightarrow> nal option \<Rightarrow> nal \<Rightarrow> (bytes \<times> int) list" where
  "unit_samples d sps pps f =
     (case (sps, pps) of
        (Some s, Some p) \<Rightarrow>
          (case package_as_stapa [s, p] of
             Returns q \<Rightarrow> [(Data q, 0), (Data f, d)]
           | Panics \<Rightarrow> [])
      | _ \<Rightarrow> [(Data f, d)])"

fun video_plan :: "int \<Rightarrow> nal option \<Rightarrow> nal option \<Rightarrow> nal list \<Rightarrow> (bytes \<times> int) list" where
  "video_plan d sps pps [] = []"
| "video_plan d sps pps (f # fs) =
     (if UnitType f = NalUnitTypeSPS then video_plan d (Some f) pps fs
      else if UnitType f = NalUnitTypePPS then video_plan d sps (Some f) fs
      else unit_samples d sps pps f @ video_plan d None None fs)"

definition last_of :: "u8 \<Rightarrow> nal option \<Rightarrow> nal list \<Rightarrow> nal option" where
  "last_of t = foldl (\<lambda>s f. if UnitType f = t then Some f else s)"

lemma last_of_simps [simp]:
  "last_of t s [] = s" "last_of t s (f # fs) = last_of t (if UnitType f = t then Some f else s) fs"
  by (simp_all add: last_of_def)

lemma sps_not_pps: "NalUnitTypeSPS \<noteq> NalUnitTypePPS"
  by (simp add: NalUnitTypeSPS_def NalUnitTypePPS_def)

lemma video_plan_params:
  "list_all is_param ps \<Longrightarrow>
     video_plan d sps pps (ps @ fs) =
     video_plan d (last_of NalUnitTypeSPS sps ps) (last_of NalUnitTypePPS pps ps) fs"
  using sps_not_pps by (induction ps arbitrary: sps pps) (auto simp: is_param_def)

lemma gather_gives:
  assumes "gives xs r" and "length xs < n"
  shows "list_all is_param xs \<and> gather n r sps pps os = Returns (Inl EOF) \<or>
    (\<exists>ps f rest r'. xs = ps @ f # rest \<and> list_all is_param ps \<and> \<not> is_param f \<and> gives rest r' \<and>
       gather n r sps pps os = Returns (Inr (n - length ps - 1, r', last_of NalUnitTypeSPS sps ps,
         last_of NalUnitTypePPS pps ps, os @ ps @ [f])))"
  using assms
proof (induction xs arbitrary: r n sps pps os)
  case Nil
  then obtain m r' where "n = Suc m" "next_nal r = Returns (Inl EOF, r')" by (cases n) auto
  then show ?case by simp
next
  case (Cons x xs)
  then obtain m r' where m: "n = Suc m" "length xs < m" and r': "next_nal r = Returns (Inr x, r')" "gives xs r'"
    by (cases n) auto
  show ?case
  proof (cases "is_param x")
    case False
    then have "gather n r sps pps os = Returns (Inr (m, r', sps, pps, os @ [x]))"
      using m r' by (simp add: is_param_def)
    then show ?thesis using m r' False
      by (intro disjI2 exI [of _ "[]"] exI [of _ x] exI [of _ xs] exI [of _ r']) simp
  next
    case True
    let ?s = "if UnitType x = NalUnitTypeSPS then Some x else sps"
    let ?p = "if UnitType x = NalUnitTypePPS then Some x else pps"
    have g: "gather n r sps pps os = gather m r' ?s ?p (os @ [x])"
      using True m r' sps_not_pps by (auto simp: is_param_def)
    from Cons.IH [OF r'(2) m(2), of ?s ?p "os @ [x]"] show ?thesis
    proof
      assume "list_all is_param xs \<and> gather m r' ?s ?p (os @ [x]) = Returns (Inl EOF)"
      then show ?thesis using True g by simp
    next
      assume "\<exists>ps f rest r''. xs = ps @ f # rest \<and> list_all is_param ps \<and> \<not> is_param f \<and> gives rest r'' \<and>
        gather m r' ?s ?p (os @ [x]) = Returns (Inr (m - length ps - 1, r'', last_of NalUnitTypeSPS ?s ps,
          last_of NalUnitTypePPS ?p ps, (os @ [x]) @ ps @ [f]))"
      then obtain ps f rest r'' where h: "xs = ps @ f # rest" "list_all is_param ps" "\<not> is_param f" "gives rest r''"
        "gather m r' ?s ?p (os @ [x]) = Returns (Inr (m - length ps - 1, r'', last_of NalUnitTypeSPS ?s ps,
          last_of NalUnitTypePPS ?p ps, (os @ [x]) @ ps @ [f]))" by blast
      then show ?thesis using True g m
        by (intro disjI2 exI [of _ "x # ps"] exI [of _ f] exI [of _ rest] exI [of _ r'']) simp
    qed
  qed
qed

lemma build_frames_samples:
  assumes "list_all is_param ps" and "\<not> is_param f"
  shows "\<exists>frames. build_frames sps pps (ps @ [f]) = Returns frames \<and> to_samples d frames = unit_samples d sps pps f"
proof -
  have "filter (\<lambda>f. \<not> is_param f) (ps @ [f]) = [f]"
    using assms by (auto simp: filter_empty_conv list_all_iff)
  then show ?thesis
    by (auto simp: build_frames_def unit_samples_def package_as_stapa_def Let_def split: option.split)
qed

definition played :: "('s \<Rightarrow> 'x \<Rightarrow> 'io option \<times> 's) \<Rightarrow> 'x list \<Rightarrow> 's \<Rightarrow> 's" where
  "played wr xs s = fold (\<lambda>x s. snd (wr s x)) xs s"

lemma played_append: "played wr (xs @ ys) s = played wr ys (played wr xs s)"
  by (simp add: played_def)

lemma write_samples_ok:
  "(\<And>s x. fst (wr s x) = None) \<Longrightarrow> write_samples wr s xs = (None, played wr xs s)"
proof (induction xs arbitrary: s)
  case (Cons x xs)
  obtain s1 where "wr s x = (None, s1)" using Cons.prems by (metis prod.collapse)
  then show ?case using Cons by (simp add: played_def)
qed (simp add: played_def)

definition played_units :: "nal list \<Rightarrow> int" where
  "played_units xs = int (length (filter (\<lambda>f. \<not> is_param f) xs))"

lemma video_loop_gives:
  assumes wr: "\<And>s x. fst (wr s x) = None"
  shows "gives xs r \<Longrightarrow> 2 * length xs + 2 \<le> n \<Longrightarrow>
    \<exists>now' clk'. video_loop wr work d n r s now clk =
        Returns (End_Of_File, played wr (video_plan d None None xs) s, now', clk') \<and>
      clockDuration clk' = clockDuration clk + d * played_units xs"
proof (induction "length xs" arbitrary: xs n r s now clk rule: less_induct)
  case less
  then obtain m where n: "n = Suc m" "length xs < m" by (cases n) auto
  from gather_gives [OF less.prems(1) n(2), of None None "[]"] show ?case
  proof
    assume "list_all is_param xs \<and> gather m r None None [] = Returns (Inl EOF)"
    then have a: "list_all is_param xs" and g: "gather m r None None [] = Returns (Inl EOF)" by auto
    have "video_plan d None None xs = []" using video_plan_params [OF a, of d None None "[]"] by simp
    moreover have "played_units xs = 0" using a by (simp add: played_units_def list_all_iff filter_empty_conv)
    ultimately show ?thesis using g n by (simp add: played_def)
  next
    assume "\<exists>ps f rest r'. xs = ps @ f # rest \<and> list_all is_param ps \<and> \<not> is_param f \<and> gives rest r' \<and>
       gather m r None None [] = Returns (Inr (m - length ps - 1, r', last_of NalUnitTypeSPS None ps,
         last_of NalUnitTypePPS None ps, [] @ ps @ [f]))"
    then obtain ps f rest r' where h: "xs = ps @ f # rest" "list_all is_param ps" "\<not> is_param f" "gives rest r'"
      "gather m r None None [] = Returns (Inr (m - length ps - 1, r', last_of NalUnitTypeSPS None ps,
         last_of NalUnitTypePPS None ps, ps @ [f]))" by auto
    let ?s = "last_of NalUnitTypeSPS None ps" and ?p = "last_of NalUnitTypePPS None ps" and ?n = "m - length ps - 1"
    obtain frames where fr: "build_frames ?s ?p (ps @ [f]) = Returns frames"
      "to_samples d frames = unit_samples d ?s ?p f" using build_frames_samples [OF h(2,3)] by blast
    obtain now1 clk1 where p: "pace (now + work ?n) d clk = (now1, clk1)" by fastforce
    let ?s1 = "played wr (unit_samples d ?s ?p f) s"
    have step: "video_loop wr work d n r s now clk = video_loop wr work d ?n r' ?s1 now1 clk1"
      using h(5) fr p n(1) write_samples_ok [OF wr] by simp
    have plan: "video_plan d None None xs = unit_samples d ?s ?p f @ video_plan d None None rest"
      using h(1-3) video_plan_params by (simp add: is_param_def)
    have units: "played_units xs = 1 + played_units rest"
      using h(1-3) by (simp add: played_units_def list_all_iff filter_empty_conv)
    have "2 * length rest + 2 \<le> ?n" using less.prems(2) n h(1) by simp
    from less.hyps [OF _ h(4) this, of ?s1 now1 clk1] obtain now' clk' where
      "video_loop wr work d ?n r' ?s1 now1 clk1 =
        Returns (End_Of_File, played wr (video_plan d None None rest) ?s1, now', clk')"
      "clockDuration clk' = clockDuration clk1 + d * played_units rest" using h(1) by auto
    then show ?thesis
      using step plan units pace_ahead(4) [OF p] by (simp add: played_append distrib_left)
  qed
qed

lemma file_played:
  assumes "open_file (sourceVideo v) = Inr s0" and "good_source (fresh_reader s0)"
    and "concat (map result_bytes s0) = annexb l d us" and "unit_ok d" and "list_all (\<lambda>(l, e). unit_ok e) us"
    and "0 < fps v" and "fps v < 2 ^ 63" and "\<And>ri s x. fst (wr ri s x) = None"
    and "2 * length (delivered d us) + 2 \<le> ctx"
  shows "\<exists>now' clk'. ingest_video open_file wr work ctx now v s =
      Returns (End_Of_File, played (write_hooked strip_marker_hook wr)
        (video_plan (1000000000 div fps v) None None (map nal_of (delivered d us))) (markerInterceptor v, s), now', clk') \<and>
    clockDuration clk' = (1000000000 div fps v) * played_units (map nal_of (delivered d us)) \<and>
    clockDuration clk' \<le> now' - now + 30000000"
proof -
  let ?wr = "write_hooked strip_marker_hook wr" and ?d = "1000000000 div fps v"
    and ?xs = "map nal_of (delivered d us)"
  have ok: "fst (?wr p x) = None" for p x
    using assms(8) by (cases p) (simp add: write_hooked_def Let_def split: prod.split, metis fst_conv)
  have dur: "sample_duration (fps v) = Returns ?d" using assms(6,7) by (simp add: sample_duration_def)
  have "gives ?xs (fresh_reader s0)" by (rule annexb_gives [OF assms(2-5)])
  from video_loop_gives [where wr = ?wr and n = ctx and work = work and d = ?d and
      s = "(markerInterceptor v, s)" and now = now and clk = "new_wall_clock now", OF ok this] assms(9)
  obtain now' clk' where vl: "video_loop ?wr work ?d ctx (fresh_reader s0) (markerInterceptor v, s) now (new_wall_clock now) =
      Returns (End_Of_File, played ?wr (video_plan ?d None None ?xs) (markerInterceptor v, s), now', clk')"
    "clockDuration clk' = ?d * played_units ?xs" by (auto simp: new_wall_clock_def)
  have "ahead now (new_wall_clock now) \<le> 30000000" by (simp add: ahead_def new_wall_clock_def)
  from video_loop_ahead [OF vl(1) this] have "clockDuration clk' \<le> now' - now + 30000000"
    by (simp add: ahead_def new_wall_clock_def)
  then show ?thesis using vl assms(1) dur new_reader_fresh by (simp add: ingest_video_def)
qed

lemma ingest_video_ahead:
  assumes "ingest_video open_file wr work ctx now v s = Returns (why, s', now', clk')"
  shows "clockStart clk' = now \<and> clockDuration clk' \<le> now' - now + 30000000"
proof -
  have start: "ahead now (new_wall_clock now) \<le> 30000000" "clockStart (new_wall_clock now) = now"
    by (simp_all add: ahead_def new_wall_clock_def)
  have idle: "clk' = new_wall_clock now \<and> now' = now \<or>
      (\<exists>wr d r p. video_loop wr work d ctx r p now (new_wall_clock now) = Returns (why, s', now', clk'))"
    using assms by (auto simp: ingest_video_def split: sum.splits outcome.splits)
  then show ?thesis
  proof
    assume "clk' = new_wall_clock now \<and> now' = now"
    then show ?thesis by (simp add: new_wall_clock_def)
  next
    assume "\<exists>wr d r p. video_loop wr work d ctx r p now (new_wall_clock now) = Returns (why, s', now', clk')"
    then show ?thesis using video_loop_ahead [OF _ start(1)] start(2) by (fastforce simp: ahead_def)
  qed
qed

text \<open>
  C9. Playing an Annex-B video file whose track accepts every sample: whatever the chunks it is
  read in, \<open>Ingest\<close> ends with \<^verbatim>\<open>io.EOF\<close> (so the caller starts it again), after it wrote, with the
  marker hook installed, the samples of \<open>video_plan\<close> in order: one of a frame duration for each unit
  that is no parameter set, and before it one of no duration with the last two parameter sets, if
  both kinds were read since the unit before. (SEI units, which the reader drops, a parameter set
  without its counterpart and those at the end of the file are not played.) And it never runs ahead:
  stopped after any number of tests of its context, it has played at most 30 ms more than has passed.
\<close>

theorem video_file_played:
  assumes "open_file (sourceVideo v) = Inr s0" and "good_source (fresh_reader s0)"
    and "concat (map result_bytes s0) = annexb l d us" and "unit_ok d" and "list_all (\<lambda>(l, e). unit_ok e) us"
    and "0 < fps v" and "fps v < 2 ^ 63" and "\<And>ri s x. fst (wr ri s x) = None"
    and "2 * length (delivered d us) + 2 \<le> ctx"
  shows "(\<exists>now' clk'. ingest_video open_file wr work ctx now v s =
      Returns (End_Of_File, played (write_hooked strip_marker_hook wr)
        (video_plan (1000000000 div fps v) None None (map nal_of (delivered d us))) (markerInterceptor v, s), now', clk') \<and>
      clockDuration clk' = (1000000000 div fps v) * played_units (map nal_of (delivered d us))) \<and>
    (\<forall>n why s' now' clk'. ingest_video open_file wr work n now v s = Returns (why, s', now', clk') \<longrightarrow>
      clockDuration clk' \<le> now' - now + 30000000)"
  using file_played [where open_file = open_file and wr = wr and work = work and now = now and s = s, OF assms]
    ingest_video_ahead [where open_file = open_file and wr = wr and work = work and now = now and v = v and s = s]
  by blast

definition collect_samples ::
  "(unit, unit) rtp_interceptor \<Rightarrow> (bytes \<times> int) list \<Rightarrow> bytes \<times> int \<Rightarrow> unit option \<times> (bytes \<times> int) list" where
  "collect_samples ri s x = (None, s @ [x])"

theorem video_file_played_witness:
  "\<exists>now' clk'. ingest_video (\<lambda>_. Inr [ReadOk [0, 0, 1, 0x67], ReadOk [9, 0, 0, 0, 1, 0x68, 5, 0, 0, 1, 0x65, 3]])
      collect_samples (\<lambda>_. 0) 9 0 ((new_video_ingester ''a.h264'')\<lparr> fps := 25 \<rparr>) [] =
    Returns (End_Of_File,
      (install_hook strip_marker_hook empty_rtp_interceptor,
       [([0x78, 0, 2, 0x67, 9, 0, 2, 0x68, 5], 0), ([0x65, 3], 40000000)]), now', clk')"
proof -
  let ?s = "[ReadOk [0, 0, 1, 0x67], ReadOk [9, 0, 0, 0, 1, 0x68, 5, 0, 0, 1, 0x65, 3]]"
  let ?v = "(new_video_ingester ''a.h264'')\<lparr> fps := 25 \<rparr> :: (unit, unit) video_ingester"
  have sei: "\<not> is_sei [0x67, 9]" "\<not> is_sei [0x68, 5]" by (simp_all add: is_sei_def nal_of_def)
  have ok: "unit_ok [0x67, 9]" "unit_ok [0x68, 5]" "unit_ok [0x65, 3]"
    by (auto simp: unit_ok_def sublist_Cons_right)
  have d: "delivered [0x67, 9] [(True, [0x68, 5]), (False, [0x65, 3])] = [[0x67, 9], [0x68, 5], [0x65, 3]]"
    using sei by simp
  have w: "\<And>ri s x. fst (collect_samples ri s x) = None" by (simp add: collect_samples_def)
  have p: "played (write_hooked strip_marker_hook collect_samples)
      (video_plan (1000000000 div 25) None None (map nal_of [[0x67, 9], [0x68, 5], [0x65, 3]])) (empty_rtp_interceptor, []) =
     (install_hook strip_marker_hook empty_rtp_interceptor,
       [([0x78, 0, 2, 0x67, 9, 0, 2, 0x68, 5], 0), ([0x65, 3], 40000000)])"
    by (simp add: played_def write_hooked_def collect_samples_def nal_of_def NalUnitTypeSPS_def NalUnitTypePPS_def
        unit_samples_def package_as_stapa_def stap_entry_def install_hook_twice)
  have "\<exists>now' clk'. ingest_video (\<lambda>_. Inr ?s) collect_samples (\<lambda>_. 0) 9 0 ?v [] =
      Returns (End_Of_File, played (write_hooked strip_marker_hook collect_samples)
        (video_plan (1000000000 div fps ?v) None None
          (map nal_of (delivered [0x67, 9] [(True, [0x68, 5]), (False, [0x65, 3])]))) (markerInterceptor ?v, []), now', clk') \<and>
      clockDuration clk' = (1000000000 div fps ?v) *
        played_units (map nal_of (delivered [0x67, 9] [(True, [0x68, 5]), (False, [0x65, 3])]))"
    by (rule conjunct1 [OF video_file_played [where l = False, OF refl _ _ _ _ _ _ w]])
      (use ok in \<open>simp_all add: d good_source_def fresh_reader_def annexb_def start_code_def\<close>)
  then show ?thesis using p unfolding d by (auto simp: new_video_ingester_def)
qed

end
