(* ===== verification/Audio_Ingester.thy ===== *)
theory Audio_Ingester
  imports Ingester
begin

text \<open>
  The audio side of \<^verbatim>\<open>src/rtc/ingester.go\<close>: Opus pages from an Ogg reader (third-party, a function
  of its state), raw PCMU in blocks of 160 bytes, the audio-level hook, and the loop of
  \<^verbatim>\<open>src/rtc/media.go\<close> that starts an ingester again when its file ends. The files the process has
  opened and not closed are a part of the state.
\<close>

subsection \<open>The audio-level extension\<close>

text \<open>
  \<^verbatim>\<open>for _, h := range headers { if h.URI == ... { audioLevel = &h } }\<close>: the address is that of the
  loop variable, one variable for the whole loop (Go before 1.22), so it is read as the last header.
\<close>

definition audio_level_uri :: string where
  "audio_level_uri = ''urn:ietf:params:rtp-hdrext:ssrc-audio-level''"

definition audio_level :: "(string \<times> u8) list \<Rightarrow> u8 option" where
  "audio_level headers =
     (if \<exists>h \<in> set headers. fst h = audio_level_uri then Some (snd (last headers)) else None)"

subsection \<open>Ogg\<close>

datatype 'io read_error = Read_Eof | Read_Failed 'io

text \<open>The duration of a page: unsigned 64-bit arithmetic, the result read as a signed \<^verbatim>\<open>Duration\<close>.\<close>

definition page_duration :: "64 word \<Rightarrow> 64 word \<Rightarrow> 64 word \<Rightarrow> int outcome" where
  "page_duration rate granule lastGranule =
     (if rate = 0 then Panics
      else Returns (sint ((1000000 * 1000 * (granule - lastGranule)) div rate)))"

fun ogg_loop ::
  "('o \<Rightarrow> ('io read_error, bytes \<times> 64 word) result \<times> 'o) \<Rightarrow> ('s \<Rightarrow> bytes \<times> int \<Rightarrow> 'io option \<times> 's) \<Rightarrow>
   (nat \<Rightarrow> int) \<Rightarrow> 64 word \<Rightarrow> nat \<Rightarrow> 'o \<Rightarrow> 's \<Rightarrow> 64 word \<Rightarrow> int \<Rightarrow> wall_clock \<Rightarrow>
   ('io ingest_error \<times> 's \<times> int \<times> wall_clock) outcome" where
  "ogg_loop pg wr work rate 0 ogg s lastGranule now clk = Returns (Cancelled, s, now, clk)"
| "ogg_loop pg wr work rate (Suc n) ogg s lastGranule now clk =
     (case pg ogg of
        (Inl Read_Eof, ogg1) \<Rightarrow> Returns (End_Of_File, s, now, clk)
      | (Inl (Read_Failed e), ogg1) \<Rightarrow> Returns (Read_Ogg e, s, now, clk)
      | (Inr (pageData, granule), ogg1) \<Rightarrow>
          (case page_duration rate granule lastGranule of
             Panics \<Rightarrow> Panics
           | Returns d \<Rightarrow>
               (case wr s (pageData, d) of
                  (Some e, s1) \<Rightarrow> Returns (Write_Sample e, s1, now, clk)
                | (None, s1) \<Rightarrow>
                    (let (now1, clk1) = pace (now + work n) d clk
                     in ogg_loop pg wr work rate n ogg1 s1 granule now1 clk1))))"

subsection \<open>PCMU\<close>

definition pcmu_duration :: int where
  "pcmu_duration = 20 * 1000000"

text \<open>One \<^verbatim>\<open>Read\<close> of at most 160 bytes: the bytes and the error it returns.\<close>

fun pcmu_loop ::
  "('f \<Rightarrow> (bytes \<times> 'io read_error option) \<times> 'f) \<Rightarrow> ('s \<Rightarrow> bytes \<times> int \<Rightarrow> 'io option \<times> 's) \<Rightarrow>
   (nat \<Rightarrow> int) \<Rightarrow> nat \<Rightarrow> 'f \<Rightarrow> 's \<Rightarrow> int \<Rightarrow> wall_clock \<Rightarrow> 'io ingest_error \<times> 's \<times> int \<times> wall_clock" where
  "pcmu_loop rd wr work 0 f s now clk = (Cancelled, s, now, clk)"
| "pcmu_loop rd wr work (Suc n) f s now clk =
     (case rd f of
        ((oneSample, err), f1) \<Rightarrow>
          if err = Some Read_Eof \<or> length oneSample \<noteq> 160 then (End_Of_File, s, now, clk)
          else (case err of
              Some (Read_Failed e) \<Rightarrow> (Read_Pcmu e, s, now, clk)
            | _ \<Rightarrow>
                (case wr s (oneSample, pcmu_duration) of
                   (Some e, s1) \<Rightarrow> (Write_Sample e, s1, now, clk)
                 | (None, s1) \<Rightarrow>
                     (let (now1, clk1) = pace (now + work n) pcmu_duration clk
                      in pcmu_loop rd wr work n f1 s1 now1 clk1))))"

subsection \<open>Open files\<close>

text \<open>
  The names of the files that were opened and not closed. \<^verbatim>\<open>os.Open\<close> adds one when it succeeds,
  \<^verbatim>\<open>Close\<close> takes one away. (A file that is unreachable is closed by the garbage collector, if and
  when it runs; that is not the program's doing and not modelled.)
\<close>

type_synonym open_files = "string list"

definition os_open :: "(string \<Rightarrow> ('io, 'f) result) \<Rightarrow> string \<Rightarrow> open_files \<Rightarrow> ('io, 'f) result \<times> open_files" where
  "os_open open_file name fs =
     (case open_file name of
        Inl e \<Rightarrow> (Inl e, fs)
      | Inr f \<Rightarrow> (Inr f, name # fs))"

definition os_close :: "string \<Rightarrow> open_files \<Rightarrow> open_files" where
  "os_close name fs = remove1 name fs"

text \<open>
  The two ways to ingest. The Ogg file is closed when the function returns (\<^verbatim>\<open>defer f.Close()\<close>), the
  PCMU file is not (the deferred close is commented out).
\<close>

type_synonym ('io, 'e, 'z, 's) audio_result =
  "('io ingest_error \<times> (('e, 'z) rtp_interceptor \<times> 's) \<times> int \<times> wall_clock) \<times> open_files"

definition ingest_pcmu ::
  "(string \<Rightarrow> ('io, 'f) result) \<Rightarrow> ('f \<Rightarrow> (bytes \<times> 'io read_error option) \<times> 'f) \<Rightarrow>
   (('e, 'z) rtp_interceptor \<Rightarrow> 's \<Rightarrow> bytes \<times> int \<Rightarrow> 'io option \<times> 's) \<Rightarrow>
   (u8 option \<Rightarrow> ('e, 'z) rtp_writer option \<Rightarrow> ('e, 'z) rtp_writer) \<Rightarrow> (string \<times> u8) list \<Rightarrow>
   (nat \<Rightarrow> int) \<Rightarrow> nat \<Rightarrow> int \<Rightarrow> ('e, 'z) audio_ingester \<Rightarrow> 's \<Rightarrow> open_files \<Rightarrow> ('io, 'e, 'z, 's) audio_result" where
  "ingest_pcmu open_file rd wr hook headers work ctx now v s fs =
     (case os_open open_file (sourceAudio v) fs of
        (Inl e, fs1) \<Rightarrow> ((Open_File (sourceAudio v) e, (audioLevelInterceptor v, s), now, new_wall_clock now), fs1)
      | (Inr f, fs1) \<Rightarrow>
          (pcmu_loop rd (write_hooked (hook (audio_level headers)) wr) work ctx f
             (audioLevelInterceptor v, s) now (new_wall_clock now), fs1))"

definition ingest_ogg ::
  "(string \<Rightarrow> ('io, 'f) result) \<Rightarrow> ('f \<Rightarrow> ('io, 'o) result) \<Rightarrow>
   ('o \<Rightarrow> ('io read_error, bytes \<times> 64 word) result \<times> 'o) \<Rightarrow>
   (('e, 'z) rtp_interceptor \<Rightarrow> 's \<Rightarrow> bytes \<times> int \<Rightarrow> 'io option \<times> 's) \<Rightarrow>
   (u8 option \<Rightarrow> ('e, 'z) rtp_writer option \<Rightarrow> ('e, 'z) rtp_writer) \<Rightarrow> 64 word list \<Rightarrow> (string \<times> u8) list \<Rightarrow>
   (nat \<Rightarrow> int) \<Rightarrow> nat \<Rightarrow> int \<Rightarrow> ('e, 'z) audio_ingester \<Rightarrow> 's \<Rightarrow> open_files \<Rightarrow> ('io, 'e, 'z, 's) audio_result outcome" where
  "ingest_ogg open_file new_ogg pg wr hook codecs headers work ctx now v s fs =
     (case os_open open_file (sourceAudio v) fs of
        (Inl e, fs1) \<Rightarrow>
          Returns ((Open_File (sourceAudio v) e, (audioLevelInterceptor v, s), now, new_wall_clock now), fs1)
      | (Inr f, fs1) \<Rightarrow>
          (case new_ogg f of
             Inl e \<Rightarrow> Returns ((Open_Ogg e, (audioLevelInterceptor v, s), now, new_wall_clock now),
               os_close (sourceAudio v) fs1)
           | Inr ogg \<Rightarrow>
               if codecs = [] then Panics
               else (case ogg_loop pg (write_hooked (hook (audio_level headers)) wr) work (hd codecs) ctx ogg
                         (audioLevelInterceptor v, s) 0 now (new_wall_clock now) of
                   Panics \<Rightarrow> Panics
                 | Returns r \<Rightarrow> Returns (r, os_close (sourceAudio v) fs1))))"

definition is_pcmu :: "('e, 'z) audio_ingester \<Rightarrow> bool" where
  "is_pcmu v = has_suffix (sourceAudio v) ''.g711u''"

definition ingest_audio where
  "ingest_audio open_file rd new_ogg pg wr hook codecs headers work ctx now v s fs =
     (if is_pcmu v then Returns (ingest_pcmu open_file rd wr hook headers work ctx now v s fs)
      else ingest_ogg open_file new_ogg pg wr hook codecs headers work ctx now v s fs)"

text \<open>An Ogg file that was opened is closed again, however its ingestion ends.\<close>

lemma ogg_closes_file:
  "ingest_ogg open_file new_ogg pg wr hook codecs headers work ctx now v s fs = Returns (r, fs') \<Longrightarrow> fs' = fs"
  by (cases "open_file (sourceAudio v)")
    (auto simp: ingest_ogg_def os_open_def os_close_def split: sum.splits if_splits outcome.splits)

subsection \<open>Starting again\<close>

text \<open>
  The loop around an ingester: each round is one test of the context and one call. \<open>mentions_open\<close>
  is the test that the error's text contains \<^verbatim>\<open>Open\<close>; \<open>alive\<close> whether the context still is, after
  the round. The result: what the rounds left, the error logged if any, the rounds made.
\<close>

fun ingest_rounds ::
  "('st \<Rightarrow> ('io ingest_error \<times> 'st) outcome) \<Rightarrow> ('io ingest_error \<Rightarrow> bool) \<Rightarrow> (nat \<Rightarrow> bool) \<Rightarrow> nat \<Rightarrow> 'st \<Rightarrow>
   ('io ingest_error option \<times> 'st) outcome" where
  "ingest_rounds ing mentions_open alive 0 st = Returns (None, st)"
| "ingest_rounds ing mentions_open alive (Suc n) st =
     (case ing st of
        Panics \<Rightarrow> Panics
      | Returns (err, st1) \<Rightarrow>
          if err = End_Of_File then ingest_rounds ing mentions_open alive n st1
          else if alive n \<and> mentions_open err then ingest_rounds ing mentions_open alive n st1
          else Returns (if alive n then Some err else None, st1))"

subsection \<open>What a PCMU file plays\<close>

text \<open>A file on disk delivers what is asked for while it has it.\<close>

definition disk_read :: "bytes \<Rightarrow> (bytes \<times> 'io read_error option) \<times> bytes" where
  "disk_read f = ((take 160 f, if f = [] then Some Read_Eof else None), drop 160 f)"

fun blocks :: "nat \<Rightarrow> bytes \<Rightarrow> bytes list" where
  "blocks 0 f = []"
| "blocks (Suc n) f = (if length f < 160 then [] else take 160 f # blocks n (drop 160 f))"

definition all_blocks :: "bytes \<Rightarrow> bytes list" where
  "all_blocks f = blocks (length f) f"

lemma blocks_content: "length f \<le> n * 160 \<Longrightarrow> concat (blocks n f) = take (160 * (length f div 160)) f"
proof (induction n f rule: blocks.induct)
  case (2 n f)
  show ?case
  proof (cases "length f < 160")
    case False
    then have "length f div 160 = Suc ((length f - 160) div 160)" by (simp add: le_div_geq)
    then have t: "take (160 * (length f div 160)) f = take 160 f @ take (160 * ((length f - 160) div 160)) (drop 160 f)"
      by (simp add: take_add)
    have "length (drop 160 f) \<le> n * 160" using 2(2) False by simp
    from 2(1) [OF False this] show ?thesis using False t by simp
  qed simp
qed simp

lemma blocks_more: "length f \<le> n * 160 \<Longrightarrow> n \<le> m \<Longrightarrow> blocks m f = blocks n f"
proof (induction n f arbitrary: m rule: blocks.induct)
  case (1 f)
  then show ?case by (cases m) auto
next
  case (2 n f)
  then obtain m' where m: "m = Suc m'" "n \<le> m'" by (cases m) auto
  show ?case
  proof (cases "length f < 160")
    case False
    then have "length (drop 160 f) \<le> n * 160" using 2(2) by simp
    from 2(1) [OF False this m(2)] show ?thesis using m False by simp
  qed (use m in simp)
qed

lemma all_blocks_content: "concat (all_blocks f) = take (160 * (length f div 160)) f"
  unfolding all_blocks_def by (rule blocks_content) simp

definition pcmu_samples :: "bytes \<Rightarrow> (bytes \<times> int) list" where
  "pcmu_samples f = map (\<lambda>b. (b, pcmu_duration)) (all_blocks f)"

lemma pcmu_loop_plays:
  assumes wr: "\<And>s x. fst (wr s x) = None"
  shows "length f < n * 160 \<Longrightarrow>
    \<exists>now' clk'. pcmu_loop disk_read wr work n f s now clk =
      (End_Of_File, played wr (map (\<lambda>b. (b, pcmu_duration)) (blocks n f)) s, now', clk')"
proof (induction n arbitrary: f s now clk)
  case 0
  then show ?case by simp
next
  case (Suc n)
  show ?case
  proof (cases "length f < 160")
    case True
    then show ?thesis by (simp add: disk_read_def played_def)
  next
    case False
    obtain s1 where s1: "wr s (take 160 f, pcmu_duration) = (None, s1)" by (metis wr prod.collapse)
    obtain now1 clk1 where p: "pace (now + work n) pcmu_duration clk = (now1, clk1)" by fastforce
    have "length (drop 160 f) < n * 160" using Suc.prems False by simp
    from Suc.IH [OF this, of s1 now1 clk1] show ?thesis
      using False s1 p by (auto simp: disk_read_def played_def)
  qed
qed

lemma pcmu_ingest_plays:
  assumes "open_file (sourceAudio v) = Inr f" and "\<And>ri s x. fst (wr ri s x) = None" and "length f < ctx * 160"
  shows "\<exists>now' clk'. ingest_pcmu open_file disk_read wr hook headers work ctx now v s fs =
    ((End_Of_File, played (write_hooked (hook (audio_level headers)) wr) (pcmu_samples f)
        (audioLevelInterceptor v, s), now', clk'), sourceAudio v # fs)"
proof -
  let ?wr = "write_hooked (hook (audio_level headers)) wr"
  have ok: "fst (?wr p x) = None" for p x
    using assms(2) by (cases p) (simp add: write_hooked_def Let_def split: prod.split, metis fst_conv)
  have "blocks ctx f = all_blocks f"
  proof (cases "ctx \<le> length f")
    case True
    then show ?thesis using assms(3) blocks_more [of f ctx "length f"] by (simp add: all_blocks_def)
  next
    case False
    then show ?thesis using blocks_more [of f "length f" ctx] by (simp add: all_blocks_def)
  qed
  then show ?thesis
    using pcmu_loop_plays [where wr = ?wr, OF ok assms(3)] assms(1)
    by (fastforce simp: ingest_pcmu_def os_open_def pcmu_samples_def)
qed

text \<open>
  C23. A PCMU file is played in its complete blocks of 160 bytes, in order, 20 ms each: the bytes
  played are the file up to the last multiple of 160, the rest is dropped, and \<^verbatim>\<open>IngestPCMU\<close>
  returns \<^verbatim>\<open>io.EOF\<close> without closing the file it has opened.
\<close>

theorem pcmu_file_played:
  assumes "open_file (sourceAudio v) = Inr f" and "\<And>ri s x. fst (wr ri s x) = None" and "length f < ctx * 160"
  shows "\<exists>now' clk'. ingest_pcmu open_file disk_read wr hook headers work ctx now v s fs =
      ((End_Of_File, played (write_hooked (hook (audio_level headers)) wr) (pcmu_samples f)
         (audioLevelInterceptor v, s), now', clk'), sourceAudio v # fs) \<and>
    concat (map fst (pcmu_samples f)) = take (160 * (length f div 160)) f"
  using pcmu_ingest_plays [where open_file = open_file and v = v and wr = wr, OF assms] all_blocks_content [of f]
  by (fastforce simp: pcmu_samples_def comp_def)

theorem pcmu_file_played_witness:
  "\<exists>now' clk'. ingest_pcmu (\<lambda>_. Inr (replicate 200 7)) disk_read collect_samples (audio_level_hook (\<lambda>_ _ h. h) (Inr []))
      [] (\<lambda>_. 0) 2 0 (new_audio_ingester ''a.g711u'') [] [''log''] =
    ((End_Of_File, (install_hook (audio_level_hook (\<lambda>_ _ h. h) (Inr []) None) empty_rtp_interceptor,
       [(replicate 160 7, 20000000)]), now', clk'), [''a.g711u'', ''log''])"
proof -
  let ?f = "replicate 200 (7 :: u8)" and ?h = "audio_level_hook (\<lambda>_ _ h. h) (Inr [])"
  let ?v = "new_audio_ingester ''a.g711u'' :: (unit, unit) audio_ingester"
  have w: "\<And>ri s x. fst (collect_samples ri s x) = None" by (simp add: collect_samples_def)
  have "blocks 2 ?f = [replicate 160 7]" by (simp add: numeral_2_eq_2)
  then have b: "pcmu_samples ?f = [(replicate 160 7, 20000000)]"
    using blocks_more [of ?f 2 "length ?f"] by (simp add: pcmu_samples_def all_blocks_def pcmu_duration_def)
  have "\<exists>now' clk'. ingest_pcmu (\<lambda>_. Inr ?f) disk_read collect_samples ?h [] (\<lambda>_. 0) 2 0 ?v [] [''log''] =
      ((End_Of_File, played (write_hooked (?h (audio_level [])) collect_samples) (pcmu_samples ?f)
         (audioLevelInterceptor ?v, []), now', clk'), sourceAudio ?v # [''log'']) \<and>
      concat (map fst (pcmu_samples ?f)) = take (160 * (length ?f div 160)) ?f"
    by (rule pcmu_file_played [OF refl w]) simp
  then show ?thesis
    by (auto simp: b played_def write_hooked_def collect_samples_def audio_level_def new_audio_ingester_def)
qed

subsection \<open>The file again and again\<close>

text \<open>
  One round of the loop around \<^verbatim>\<open>Ingest\<close> for a PCMU file: the interceptor with its hook, the
  track, the time and the open files are what the round before left.
\<close>

definition pcmu_round where
  "pcmu_round open_file wr hook headers work ctx v = (\<lambda>(ri, s, now :: int, fs).
     let ((err, (ri1, s1), now1, clk1), fs1) =
       ingest_pcmu open_file disk_read wr hook headers work ctx now (v\<lparr> audioLevelInterceptor := ri \<rparr>) s fs
     in Returns (err, (ri1, s1, now1, fs1)))"

lemma collect_played:
  "\<exists>ri'. played (write_hooked hook collect_samples) xs (ri, s) = (ri', s @ xs)"
proof (induction xs arbitrary: ri s)
  case (Cons x xs)
  have "played (write_hooked hook collect_samples) (x # xs) (ri, s) =
      played (write_hooked hook collect_samples) xs (install_hook hook ri, s @ [x])"
    by (simp add: played_def write_hooked_def collect_samples_def)
  then show ?case using Cons [of "install_hook hook ri" "s @ [x]"] by simp
qed (simp add: played_def)

lemma collect_accepts: "fst (collect_samples ri s x) = None"
  by (simp add: collect_samples_def)

text \<open>
  C28. While the call lasts, a PCMU file is played again and again without a gap or a repetition: a
  round that ends with \<^verbatim>\<open>io.EOF\<close> is followed by the next one, no error is reported, and after \<open>n\<close>
  rounds the track has been given \<open>n\<close> times the blocks of the file, and nothing else. Each round opens
  the file anew, and the code closes none of them.
\<close>

theorem pcmu_file_looped:
  assumes "open_file (sourceAudio v) = Inr f" and "length f < ctx * 160"
  shows "\<exists>ri' now'. ingest_rounds (pcmu_round open_file collect_samples hook headers work ctx v) mentions_open alive n
      (ri, s, now, fs) =
    Returns (None, (ri', s @ concat (replicate n (pcmu_samples f)), now', replicate n (sourceAudio v) @ fs))"
proof (induction n arbitrary: ri s now fs)
  case (Suc n)
  obtain ri1 where p: "played (write_hooked (hook (audio_level headers)) collect_samples) (pcmu_samples f) (ri, s) =
      (ri1, s @ pcmu_samples f)"
    using collect_played by blast
  have o: "open_file (sourceAudio (v\<lparr> audioLevelInterceptor := ri \<rparr>)) = Inr f" using assms(1) by simp
  from pcmu_ingest_plays [where open_file = open_file and wr = collect_samples and now = now and s = s and hook = hook
      and headers = headers and work = work and fs = fs, OF o collect_accepts assms(2)] p
  obtain now1 where "pcmu_round open_file collect_samples hook headers work ctx v (ri, s, now, fs) =
      Returns (End_Of_File, (ri1, s @ pcmu_samples f, now1, sourceAudio v # fs))"
    by (auto simp: pcmu_round_def Let_def)
  then show ?case
    using Suc.IH [of ri1 "s @ pcmu_samples f" now1 "sourceAudio v # fs"] replicate_app_Cons_same [of n "sourceAudio v" fs]
    by simp
qed simp

theorem pcmu_file_looped_witness:
  "\<exists>ri' now'. ingest_rounds (pcmu_round (\<lambda>_. Inr (replicate 170 7)) collect_samples (audio_level_hook (\<lambda>_ _ h. h) (Inr []))
      [] (\<lambda>_. 0) 2 (new_audio_ingester ''a.g711u'')) (\<lambda>_. False) (\<lambda>_. True) 2 (empty_rtp_interceptor, [], 0, []) =
    Returns (None, (ri', [(replicate 160 7, 20000000), (replicate 160 7, 20000000)], now', [''a.g711u'', ''a.g711u'']))"
proof -
  let ?f = "replicate 170 (7 :: u8)"
  have "blocks 2 ?f = [replicate 160 7]" by (simp add: numeral_2_eq_2)
  then have b: "pcmu_samples ?f = [(replicate 160 7, 20000000)]"
    using blocks_more [of ?f 2 "length ?f"] by (simp add: pcmu_samples_def all_blocks_def pcmu_duration_def)
  have "length ?f < 2 * 160" by simp
  from pcmu_file_looped [where open_file = "\<lambda>_. Inr ?f" and n = 2
      and v = "new_audio_ingester ''a.g711u''" and hook = "audio_level_hook (\<lambda>_ _ h. h) (Inr [])"
      and headers = "[]" and work = "\<lambda>_. 0" and mentions_open = "\<lambda>_. False" and alive = "\<lambda>_. True"
      and ri = empty_rtp_interceptor and s = "[]" and now = 0 and fs = "[]", OF refl this]
  show ?thesis by (simp add: b numeral_2_eq_2 new_audio_ingester_def)
qed

end
