(* ===== verification/Media_Setup.thy ===== *)
theory Media_Setup
  imports Call_Profile Sdp Audio_Ingester
begin

text \<open>
  What the media function of \<^verbatim>\<open>src/rtc/media.go\<close> decides before it talks to anyone: the file it
  plays, the codecs and header extensions it registers with the media engine, and the ICE
  configuration. The engine is third-party: whether it takes a codec or an extension is an argument.
\<close>

subsection \<open>Codecs\<close>

record codec =
  mimeType :: string
  clockRate :: "32 word"
  channels :: "16 word"
  fmtp :: string
  feedback :: "(string \<times> string) list"
  payload :: u8

definition plain_codec :: "string \<Rightarrow> 32 word \<Rightarrow> 16 word \<Rightarrow> string \<Rightarrow> u8 \<Rightarrow> codec" where
  "plain_codec m rate ch f pt =
     \<lparr> mimeType = m, clockRate = rate, channels = ch, fmtp = f, feedback = [], payload = pt \<rparr>"

definition audio_codecs :: "string \<Rightarrow> codec list" where
  "audio_codecs audioFile =
     (if has_suffix audioFile ''.g711u'' then
        [plain_codec ''audio/PCMU'' 8000 0 [] 0,
         plain_codec ''telephone-event'' 8000 0 [] 101]
      else
        [plain_codec ''audio/opus'' 48000 2 ''minptime=10;useinbandfec=1'' 111,
         plain_codec ''telephone-event'' 8000 0 [] 101])"

definition video_feedback :: "(string \<times> string) list" where
  "video_feedback = [(''goog-remb'', []), (''ccm'', ''fir''), (''nack'', []), (''nack'', ''pli'')]"

definition h264_codec :: "string \<Rightarrow> u8 \<Rightarrow> codec" where
  "h264_codec level pt =
     (plain_codec ''video/H264'' 90000 0
       (''level-asymmetry-allowed=1;packetization-mode=1;profile-level-id='' @ level) pt)
       \<lparr> feedback := video_feedback \<rparr>"

definition video_codecs :: "codec list" where
  "video_codecs =
     [h264_codec ''42001f'' 102, plain_codec ''video/rtx'' 90000 0 ''apt=102'' 121,
      h264_codec ''42e01f'' 125, plain_codec ''video/rtx'' 90000 0 ''apt=125'' 107,
      h264_codec ''640032'' 123, plain_codec ''video/rtx'' 90000 0 ''apt=123'' 118,
      plain_codec ''video/ulpfec'' 90000 0 [] 116]"

datatype codec_kind = Audio_Kind | Video_Kind

text \<open>A registration loop stops at the first refusal. Result: the refusal and what was taken.\<close>

fun register_each :: "('a \<Rightarrow> 'e option) \<Rightarrow> 'a list \<Rightarrow> 'e option \<times> 'a list" where
  "register_each reg [] = (None, [])"
| "register_each reg (x # xs) =
     (case reg x of
        Some e \<Rightarrow> (Some e, [])
      | None \<Rightarrow> (let (e, ys) = register_each reg xs in (e, x # ys)))"

definition register_default_codecs ::
  "(codec \<times> codec_kind \<Rightarrow> 'e option) \<Rightarrow> string \<Rightarrow> 'e option \<times> (codec \<times> codec_kind) list" where
  "register_default_codecs reg audioFile =
     (case register_each reg (map (\<lambda>c. (c, Audio_Kind)) (audio_codecs audioFile)) of
        (Some e, cs) \<Rightarrow> (Some e, cs)
      | (None, cs) \<Rightarrow>
          (let (e, vs) = register_each reg (map (\<lambda>c. (c, Video_Kind)) video_codecs) in (e, cs @ vs)))"

subsection \<open>Header extensions\<close>

definition mid_uri :: string where
  "mid_uri = ''urn:ietf:params:rtp-hdrext:sdes:mid''"

definition stream_id_uri :: string where
  "stream_id_uri = ''urn:ietf:params:rtp-hdrext:sdes:rtp-stream-id''"

definition twcc_uri :: string where
  "twcc_uri = ''http://www.ietf.org/id/draft-holmer-rmcat-transport-wide-cc-extensions-01''"

definition video_extensions :: "bool \<Rightarrow> string list" where
  "video_extensions enableTWCC =
     filter (\<lambda>e. \<not> (e = twcc_uri \<and> \<not> enableTWCC)) [mid_uri, stream_id_uri, twcc_uri]"

definition audio_extensions :: "bool \<Rightarrow> string list" where
  "audio_extensions enableAudioLevel =
     filter (\<lambda>e. \<not> (e = audio_level_uri \<and> \<not> enableAudioLevel)) [mid_uri, stream_id_uri, audio_level_uri]"

subsection \<open>The media engine\<close>

record engine =
  engineCodecs :: "(codec \<times> codec_kind) list"
  engineExtensions :: "(string \<times> codec_kind) list"

record engine_api =
  regCodec :: "codec \<times> codec_kind \<Rightarrow> string option"
  regExtension :: "string \<times> codec_kind \<Rightarrow> string option"
  regInterceptors :: "string option"

text \<open>The registrations in \<^verbatim>\<open>webrtcNewPeerConnection\<close>, up to the first refusal.\<close>

definition setup_engine :: "engine_api \<Rightarrow> string \<Rightarrow> bool \<Rightarrow> bool \<Rightarrow> (string, engine) result" where
  "setup_engine api audioFile enableAudioLevel enableTWCC =
     (case register_default_codecs (regCodec api) audioFile of
        (Some e, cs) \<Rightarrow> Inl e
      | (None, cs) \<Rightarrow>
     (case register_each (regExtension api) (map (\<lambda>u. (u, Video_Kind)) (video_extensions enableTWCC)) of
        (Some e, us) \<Rightarrow> Inl e
      | (None, us) \<Rightarrow>
     (case register_each (regExtension api) (map (\<lambda>u. (u, Audio_Kind)) (audio_extensions enableAudioLevel)) of
        (Some e, vs) \<Rightarrow> Inl e
      | (None, vs) \<Rightarrow>
     (case regInterceptors api of
        Some e \<Rightarrow> Inl e
      | None \<Rightarrow> Inr \<lparr> engineCodecs = cs, engineExtensions = us @ vs \<rparr>))))"

subsection \<open>What a call plays\<close>

record media_plan =
  callKind :: string
  planAudio :: string
  planVideo :: string
  planFps :: int

definition no_plan :: media_plan where
  "no_plan = \<lparr> callKind = [], planAudio = [], planVideo = [], planFps = 0 \<rparr>"

definition caller_plan :: "call_profile \<Rightarrow> media_plan" where
  "caller_plan cp =
     (if MediaType cp = ''video'' then
        no_plan\<lparr> callKind := ''video'', planVideo := VideoFile cp, planFps := VideoFileFps cp \<rparr>
      else if MediaType cp = ''audio'' then no_plan\<lparr> callKind := ''audio'', planAudio := AudioFile cp \<rparr>
      else no_plan)"

definition callee_plan :: "call_profile \<Rightarrow> string \<Rightarrow> media_plan" where
  "callee_plan cp sdp =
     (if index_of sdp ''m=video'' \<noteq> None then
        no_plan\<lparr> callKind := ''video'', planVideo := VideoFile cp, planFps := VideoFileFps cp \<rparr>
      else if index_of sdp ''m=audio'' \<noteq> None then no_plan\<lparr> callKind := ''audio'', planAudio := AudioFile cp \<rparr>
      else no_plan)"

subsection \<open>ICE\<close>

record ice_config =
  iceUrls :: "string list"
  iceUsername :: string
  iceCredential :: string
  relayOnly :: bool

definition ice_configuration :: "call_profile \<Rightarrow> ice_config" where
  "ice_configuration cp =
     (if ICEURLs cp \<noteq> [] then
        \<lparr> iceUrls = split_on CHR '','' (ICEURLs cp), iceUsername = ICEUsername cp,
          iceCredential = ICECredential cp, relayOnly = True \<rparr>
      else \<lparr> iceUrls = [], iceUsername = [], iceCredential = [], relayOnly = False \<rparr>)"

subsection \<open>What is registered\<close>

lemma register_each_all: "register_each reg xs = (None, ys) \<Longrightarrow> ys = xs \<and> (\<forall>x \<in> set xs. reg x = None)"
  by (induction xs arbitrary: ys) (auto split: option.splits prod.splits)

lemma register_each_prefix: "register_each reg xs = (e, ys) \<Longrightarrow> prefix ys xs"
  by (induction xs arbitrary: ys) (auto split: option.splits prod.splits)

definition all_codecs :: "string \<Rightarrow> (codec \<times> codec_kind) list" where
  "all_codecs audioFile = map (\<lambda>c. (c, Audio_Kind)) (audio_codecs audioFile) @
     map (\<lambda>c. (c, Video_Kind)) video_codecs"

lemma setup_engine_all:
  assumes "setup_engine api audioFile lvl twcc = Inr e"
  shows "engineCodecs e = all_codecs audioFile"
    and "engineExtensions e = map (\<lambda>u. (u, Video_Kind)) (video_extensions twcc) @
           map (\<lambda>u. (u, Audio_Kind)) (audio_extensions lvl)"
  using assms
  by (auto simp: setup_engine_def register_default_codecs_def all_codecs_def
      split: prod.splits option.splits dest!: register_each_all)

lemmas codec_defs = all_codecs_def audio_codecs_def video_codecs_def h264_codec_def plain_codec_def

lemma all_codecs_payloads: "distinct (map (\<lambda>(c, k). payload c) (all_codecs f))"
  by (simp add: codec_defs)

lemma all_codecs_rtx:
  "list_all (\<lambda>(c, k). mimeType c = ''video/rtx'' \<longrightarrow>
     (\<exists>(h, j) \<in> set (all_codecs f). mimeType h = ''video/H264'' \<and>
        fmtp c = ''apt='' @ show_int (uint (payload h)))) (all_codecs f)"
  by (simp add: codec_defs show_int_def digit_char_def go_eval)

text \<open>An engine that takes everything, for the concrete instances.\<close>

definition open_engine :: engine_api where
  "open_engine = \<lparr> regCodec = (\<lambda>c. None), regExtension = (\<lambda>u. None), regInterceptors = None \<rparr>"

lemma register_each_open [simp]: "register_each (\<lambda>x. None) xs = (None, xs)"
  by (induction xs) auto

lemma setup_open_engine:
  "setup_engine open_engine f lvl twcc =
     Inr \<lparr> engineCodecs = all_codecs f,
       engineExtensions = map (\<lambda>u. (u, Video_Kind)) (video_extensions twcc) @
         map (\<lambda>u. (u, Audio_Kind)) (audio_extensions lvl) \<rparr>"
  by (simp add: setup_engine_def open_engine_def register_default_codecs_def all_codecs_def Let_def)

text \<open>
  C25. A connection that gets its media engine has every codec of the call registered under a payload
  type of its own, every retransmission codec names the payload type of a registered H.264 codec,
  and the audio-level and transport-wide extensions are registered exactly when they are enabled.
\<close>

theorem engine_well_formed:
  assumes "setup_engine api audioFile lvl twcc = Inr e"
  shows "distinct (map (\<lambda>(c, k). payload c) (engineCodecs e)) \<and>
    list_all (\<lambda>(c, k). mimeType c = ''video/rtx'' \<longrightarrow>
      (\<exists>(h, j) \<in> set (engineCodecs e). mimeType h = ''video/H264'' \<and>
        fmtp c = ''apt='' @ show_int (uint (payload h)))) (engineCodecs e) \<and>
    (audio_level_uri \<in> fst ` set (engineExtensions e)) = lvl \<and>
    (twcc_uri \<in> fst ` set (engineExtensions e)) = twcc"
proof -
  have "(audio_level_uri \<in> fst ` set (engineExtensions e)) = lvl" "(twcc_uri \<in> fst ` set (engineExtensions e)) = twcc"
    by (auto simp: setup_engine_all(2) [OF assms] video_extensions_def audio_extensions_def
        mid_uri_def stream_id_uri_def twcc_uri_def audio_level_uri_def)
  then show ?thesis
    unfolding setup_engine_all(1) [OF assms] using all_codecs_payloads all_codecs_rtx by blast
qed

theorem engine_well_formed_witness:
  "distinct (map (\<lambda>(c, k). payload c) (all_codecs ''music.g711u''))"
  using engine_well_formed [OF setup_open_engine, of "''music.g711u''" True False] by simp

definition offers_codec :: "engine \<Rightarrow> codec_kind \<Rightarrow> string \<Rightarrow> nat \<Rightarrow> bool" where
  "offers_codec e k mime rate =
     list_ex (\<lambda>(c, j). j = k \<and> mimeType c = mime \<and> unat (clockRate c) = rate) (engineCodecs e)"

lemma all_codecs_audio:
  "list_ex (\<lambda>(c, j). j = Audio_Kind \<and> mimeType c = fst (audio_codec f) \<and>
     unat (clockRate c) = fst (snd (audio_codec f))) (all_codecs f)"
  by (simp add: codec_defs audio_codec_def)

lemma all_codecs_video:
  "list_ex (\<lambda>(c, j). j = Video_Kind \<and> mimeType c = fst (video_codec src) \<and>
     unat (clockRate c) = snd (video_codec src)) (all_codecs f) = (\<not> has_suffix src ''.ivf'')"
  by (simp add: codec_defs video_codec_def)

text \<open>
  C26. The audio track an ingester creates always has a codec (MIME type and clock rate) that the
  engine of the call offers, whatever the audio file is. The video track has one exactly when
  the file is not an \<^verbatim>\<open>.ivf\<close> file: for those the ingester makes a VP8 track, which no call offers.
\<close>

theorem track_codecs_offered:
  assumes "setup_engine api (AudioFile cp) lvl twcc = Inr e"
  shows "offers_codec e Audio_Kind (fst (audio_codec (AudioFile cp))) (fst (snd (audio_codec (AudioFile cp)))) \<and>
    offers_codec e Video_Kind (fst (video_codec (VideoFile cp))) (snd (video_codec (VideoFile cp))) =
      (\<not> has_suffix (VideoFile cp) ''.ivf'')"
  unfolding offers_codec_def setup_engine_all(1) [OF assms] using all_codecs_audio all_codecs_video by blast

theorem track_codecs_offered_witness:
  "\<not> offers_codec (\<lparr> engineCodecs = all_codecs [],
      engineExtensions = map (\<lambda>u. (u, Video_Kind)) (video_extensions False) @
         map (\<lambda>u. (u, Audio_Kind)) (audio_extensions False) \<rparr>) Video_Kind ''video/VP8'' 90000"
proof -
  have s: "has_suffix ''clip.ivf'' ''.ivf''" using suffixI [of "''clip.ivf''" "''clip''" "''.ivf''"] by (simp add: has_suffix_def)
  show ?thesis
    using track_codecs_offered [of open_engine "zero_profile\<lparr> VideoFile := ''clip.ivf'' \<rparr>" False False,
        simplified, OF setup_open_engine] s
    by (simp add: video_codec_def zero_profile_def)
qed

end
