(* ===== verification/Media_Writers.thy ===== *)
theory Media_Writers
  imports Rtp_H264
begin

unbundle bit_operations_syntax

text \<open>
  The recorders behind Go's interface \<^verbatim>\<open>media.Writer\<close>: \<^verbatim>\<open>H264Writer\<close>
  (\<^verbatim>\<open>src/rtc/h264writer/h264writer.go\<close>) and \<^verbatim>\<open>G711Writer\<close>
  (\<^verbatim>\<open>src/rtc/g711writer/g711writer.go\<close>). The file they write to is an argument: \<open>put\<close> is its
  \<^verbatim>\<open>Write\<close>. The locale \<open>byte_sink\<close> states what a file promises, the locale \<open>media_writer\<close> what
  a recorder promises, and either recorder over any such file is shown to be a \<open>media_writer\<close>.
\<close>

subsection \<open>The writers\<close>

record 's h264_writer =
  writer :: 's
  hasKeyFrame :: bool

record 's g711_writer =
  fd :: "'s option"
  sampleRate :: "32 word"
  channelCount :: "16 word"

datatype 'io write_error = CodecError codec_error | FileError 'io | FileInvalid | InvalidNilPacket

text \<open>\<^verbatim>\<open>New\<close> of both packages: the file may fail to open.\<close>

definition h264_new_with :: "'s \<Rightarrow> 's h264_writer" where
  "h264_new_with w = \<lparr> writer = w, hasKeyFrame = False \<rparr>"

definition h264_new :: "(string \<Rightarrow> ('io, 's) result) \<Rightarrow> string \<Rightarrow> ('io, 's h264_writer) result" where
  "h264_new create filename = bind_result (create filename) (\<lambda>f. Inr (h264_new_with f))"

definition g711_new ::
  "(string \<Rightarrow> ('io, 's) result) \<Rightarrow> string \<Rightarrow> 32 word \<Rightarrow> 16 word \<Rightarrow> ('io, 's g711_writer) result" where
  "g711_new create fileName rate channels =
     bind_result (create fileName)
       (\<lambda>f. Inr \<lparr> fd = Some f, sampleRate = rate, channelCount = channels \<rparr>)"

text \<open>
  \<^verbatim>\<open>WriteRTP\<close> of the H.264 recorder. A packet is the option of its payload: \<open>None\<close> is a nil
  packet, whose payload cannot be read.
\<close>

definition h264_write_rtp ::
  "('s \<Rightarrow> bytes \<Rightarrow> 'io option \<times> 's) \<Rightarrow> 's h264_writer \<Rightarrow> bytes option \<Rightarrow>
   ('io write_error option \<times> 's h264_writer) outcome" where
  "h264_write_rtp put h packet =
     (case packet of
        None \<Rightarrow> Panics
      | Some payload \<Rightarrow>
          if length payload = 0 then Returns (None, h)
          else let h1 = (if \<not> hasKeyFrame h then h\<lparr> hasKeyFrame := is_key_frame payload \<rparr> else h) in
            if \<not> hasKeyFrame h1 then Returns (None, h1)
            else (case h264_unmarshal (Some payload) of
                Panics \<Rightarrow> Panics
              | Returns (Inl e) \<Rightarrow> Returns (Some (CodecError e), h1)
              | Returns (Inr d) \<Rightarrow>
                  let (err, w) = put (writer h1) d
                  in Returns (map_option FileError err, h1\<lparr> writer := w \<rparr>)))"

definition g711_write_rtp ::
  "('s \<Rightarrow> bytes \<Rightarrow> 'io option \<times> 's) \<Rightarrow> 's g711_writer \<Rightarrow> bytes option \<Rightarrow>
   ('io write_error option \<times> 's g711_writer) outcome" where
  "g711_write_rtp put i packet =
     (case packet of
        None \<Rightarrow> Returns (Some InvalidNilPacket, i)
      | Some payload \<Rightarrow>
          (case fd i of
             None \<Rightarrow> Returns (Some FileInvalid, i)
           | Some f \<Rightarrow> let (err, f') = put f payload
                       in Returns (map_option FileError err, i\<lparr> fd := Some f' \<rparr>)))"

text \<open>\<^verbatim>\<open>Close\<close>: the G.711 recorder forgets its file, so a second call does nothing.\<close>

definition h264_close :: "('s \<Rightarrow> 'io option \<times> 's) \<Rightarrow> 's h264_writer \<Rightarrow> 'io option \<times> 's h264_writer" where
  "h264_close close_file h = (let (err, w) = close_file (writer h) in (err, h\<lparr> writer := w \<rparr>))"

definition g711_close :: "('s \<Rightarrow> 'io option \<times> 's) \<Rightarrow> 's g711_writer \<Rightarrow> 'io option \<times> 's g711_writer" where
  "g711_close close_file i =
     (case fd i of
        None \<Rightarrow> (None, i)
      | Some f \<Rightarrow> (fst (close_file f), i\<lparr> fd := None \<rparr>))"

subsection \<open>What a file and a recorder promise\<close>

locale byte_sink =
  fixes put :: "'s \<Rightarrow> bytes \<Rightarrow> 'io option \<times> 's"
    and content :: "'s \<Rightarrow> bytes"
  assumes put_ok: "put s d = (None, s') \<Longrightarrow> content s' = content s @ d"
    and put_fail: "put s d = (Some e, s') \<Longrightarrow> prefix (content s) (content s')"
begin

lemma put_prefix: "put s d = (e, s') \<Longrightarrow> prefix (content s) (content s')"
  by (cases e) (auto dest: put_ok put_fail)

end

text \<open>The recording loop: an error of one packet does not stop it.\<close>

fun write_packets ::
  "('w \<Rightarrow> bytes option \<Rightarrow> ('e option \<times> 'w) outcome) \<Rightarrow> 'w \<Rightarrow> bytes list \<Rightarrow> 'w outcome" where
  "write_packets wr w [] = Returns w"
| "write_packets wr w (p # ps) =
     (case wr w (Some p) of Panics \<Rightarrow> Panics | Returns (e, w') \<Rightarrow> write_packets wr w' ps)"

lemma write_packets_append:
  "write_packets wr w (ps @ qs) =
     (case write_packets wr w ps of Panics \<Rightarrow> Panics | Returns w' \<Rightarrow> write_packets wr w' qs)"
  by (induction ps arbitrary: w) (auto split: outcome.splits)

locale media_writer =
  fixes write_rtp :: "'w \<Rightarrow> bytes option \<Rightarrow> ('e option \<times> 'w) outcome"
    and recorded :: "'w \<Rightarrow> bytes"
  assumes write_appends: "write_rtp w p = Returns (e, w') \<Longrightarrow> prefix (recorded w) (recorded w')"
begin

lemma write_packets_appends:
  "write_packets write_rtp w ps = Returns w' \<Longrightarrow> prefix (recorded w) (recorded w')"
proof (induction ps arbitrary: w)
  case Nil
  then show ?case by simp
next
  case (Cons p ps)
  then show ?case
    by (auto split: outcome.splits) (meson prefix_order.order_trans write_appends)
qed

lemma write_packets_split:
  assumes "write_packets write_rtp w (ps @ qs) = Returns w'"
  obtains v where "write_packets write_rtp w ps = Returns v" and "write_packets write_rtp v qs = Returns w'"
    and "prefix (recorded v) (recorded w')"
  using assms write_packets_appends by (auto simp: write_packets_append split: outcome.splits)

end

definition g711_recorded :: "('s \<Rightarrow> bytes) \<Rightarrow> 's g711_writer \<Rightarrow> bytes" where
  "g711_recorded content i = (case fd i of None \<Rightarrow> [] | Some f \<Rightarrow> content f)"

sublocale byte_sink \<subseteq> h264w: media_writer "h264_write_rtp put" "\<lambda>h. content (writer h)"
  by unfold_locales
    (auto simp: h264_write_rtp_def Let_def dest: put_prefix
      split: option.splits outcome.splits sum.splits prod.splits if_splits)

sublocale byte_sink \<subseteq> g711w: media_writer "g711_write_rtp put" "g711_recorded content"
  by unfold_locales
    (auto simp: g711_write_rtp_def g711_recorded_def Let_def dest: put_prefix
      split: option.splits prod.splits)

text \<open>A file on a disk with limited room: a write that does not fit is cut and reports an error.\<close>

definition disk_put :: "bytes \<times> nat \<Rightarrow> bytes \<Rightarrow> unit option \<times> (bytes \<times> nat)" where
  "disk_put = (\<lambda>(c, room) d.
     if length d \<le> room then (None, (c @ d, room - length d)) else (Some (), (c @ take room d, 0)))"

interpretation disk: byte_sink disk_put fst
  by unfold_locales (auto simp: disk_put_def split: if_splits)

text \<open>A file that accepts every write.\<close>

definition mem_put :: "bytes \<Rightarrow> bytes \<Rightarrow> unit option \<times> bytes" where
  "mem_put s d = (None, s @ d)"

interpretation mem: byte_sink mem_put "\<lambda>s. s"
  by unfold_locales (auto simp: mem_put_def)

subsection \<open>Properties of the recorders\<close>

lemma silent_until_key:
  assumes "\<not> hasKeyFrame h" and "list_all (\<lambda>p. \<not> is_key_frame p) ps"
  shows "write_packets (h264_write_rtp put) h ps = Returns h"
  using assms(2)
proof (induction ps)
  case Nil
  show ?case by simp
next
  case (Cons p ps)
  have "h\<lparr> hasKeyFrame := False \<rparr> = h" using assms(1) by (cases h) simp
  then have "h264_write_rtp put h (Some p) = Returns (None, h)"
    using assms(1) Cons.prems by (simp add: h264_write_rtp_def Let_def)
  then show ?case using Cons by simp
qed

text \<open>Until the first key frame arrives the H.264 recorder writes nothing and reports no error.\<close>

theorem no_write_before_key_frame:
  assumes "\<not> hasKeyFrame h" and "list_all (\<lambda>p. \<not> is_key_frame p) ps"
  shows "write_packets (h264_write_rtp put) h ps = Returns h"
  using assms by (rule silent_until_key)

theorem no_write_before_key_frame_witness:
  "write_packets (h264_write_rtp mem_put) (h264_new_with []) [[0x41, 1, 2, 3, 4], [0x41, 5]] =
   Returns (h264_new_with [])"
proof -
  have "list_all (\<lambda>p. \<not> is_key_frame p) [[0x41, 1, 2, 3, 4], [0x41, 5]]"
    by (simp add: is_key_frame_bytes)
  then show ?thesis
    by (intro no_write_before_key_frame) (simp_all add: h264_new_with_def)
qed

definition single_unit :: "bytes \<Rightarrow> bool" where
  "single_unit p = (2 < length p \<and> 0 < p ! 0 AND 0x1F \<and> p ! 0 AND 0x1F < 24)"

lemma unmarshal_single: "single_unit p \<Longrightarrow> h264_unmarshal (Some p) = Returns (Inr (annexb_start_code @ p))"
  by (simp add: single_unit_def h264_unmarshal_def Let_def)

lemma h264_write_data:
  assumes "byte_sink put content" and "\<And>s d. fst (put s d) = None"
    and "hasKeyFrame h \<or> is_key_frame p" and "h264_unmarshal (Some p) = Returns (Inr d)"
  shows "\<exists>h'. h264_write_rtp put h (Some p) = Returns (None, h') \<and> hasKeyFrame h' \<and>
    content (writer h') = content (writer h) @ d"
proof -
  obtain w where put: "put (writer h) d = (None, w)" using assms(2) by (metis prod.collapse)
  have "p \<noteq> []" using assms(4) by (auto simp: h264_unmarshal_def)
  then show ?thesis
    using assms(3,4) put byte_sink.put_ok [OF assms(1) put]
    by (auto simp: h264_write_rtp_def Let_def)
qed

subsection \<open>What is recorded of a stream\<close>

text \<open>
  A stream of RTP packets as the recorder takes it apart: units of their own, aggregations, units in
  fragments, and packets of types it does not know (or too short), which it reports and skips.
\<close>

datatype rtp_item = Single_Unit bytes | Aggregation u8 "bytes list" | Fragmented bytes "bytes list" | Unhandled bytes

fun item_packets :: "rtp_item \<Rightarrow> bytes list" where
  "item_packets (Single_Unit u) = [u]"
| "item_packets (Aggregation r us) = [((push_bit 5 r AND 0x60) OR 24) # concat (map (stap_entry \<circ> nal_of) us)]"
| "item_packets (Fragmented u cs) = fua_packets (hd u) True cs"
| "item_packets (Unhandled p) = [p]"

fun item_units :: "rtp_item \<Rightarrow> bytes list" where
  "item_units (Single_Unit u) = [u]"
| "item_units (Aggregation r us) = us"
| "item_units (Fragmented u cs) = [u]"
| "item_units (Unhandled p) = []"

definition unhandled :: "bytes \<Rightarrow> bool" where
  "unhandled p = (length p \<le> 2 \<or> p ! 0 AND 0x1F = 0 \<or> 24 < p ! 0 AND 0x1F \<and> p ! 0 AND 0x1F \<noteq> 28)"

fun item_ok :: "rtp_item \<Rightarrow> bool" where
  "item_ok (Single_Unit u) = single_unit u"
| "item_ok (Aggregation r us) = (us \<noteq> [] \<and> list_all (\<lambda>u. length u < 2 ^ 16) us)"
| "item_ok (Fragmented u cs) =
     (u \<noteq> [] \<and> hd u AND 0x80 = 0 \<and> concat cs = tl u \<and> cs \<noteq> [] \<and> [] \<notin> set cs)"
| "item_ok (Unhandled p) = unhandled p"

text \<open>The packets \<^verbatim>\<open>isKeyFrame\<close> accepts: a parameter set of its own, or aggregated as the first unit.\<close>

fun starts_recording :: "rtp_item \<Rightarrow> bool" where
  "starts_recording (Single_Unit u) = (4 \<le> length u \<and> UnitType (nal_of u) = NalUnitTypeSPS)"
| "starts_recording (Aggregation r us) = (us \<noteq> [] \<and> hd us \<noteq> [] \<and> UnitType (nal_of (hd us)) = NalUnitTypeSPS)"
| "starts_recording (Fragmented u cs) = False"
| "starts_recording (Unhandled p) = False"

abbreviation coded :: "bytes list \<Rightarrow> bytes" where
  "coded us \<equiv> concat (map (\<lambda>u. annexb_start_code @ u) us)"

lemma Data_nal_of [simp]: "Data (nal_of d) = d"
  by (simp add: nal_of_def)

lemma starts_key:
  assumes "starts_recording i"
  shows "\<exists>p. item_packets i = [p] \<and> is_key_frame p"
proof (cases i)
  case (Single_Unit u)
  then show ?thesis using assms by (cases u) (auto simp: is_key_frame_bytes nal_of_def)
next
  case (Aggregation r us)
  then obtain b t us' where "us = (b # t) # us'" "b AND 0x1F = 7"
    using assms by (cases us; cases "hd us") (auto simp: nal_of_def)
  then show ?thesis using Aggregation stap_header_type by (simp add: is_key_frame_bytes stap_entry_def)
qed (use assms in simp_all)

lemma unmarshal_aggregation:
  assumes "us \<noteq> []" and "list_all (\<lambda>u. length u < 2 ^ 16) us"
  shows "h264_unmarshal (Some (((push_bit 5 r AND 0x60) OR 24) # concat (map (stap_entry \<circ> nal_of) us))) =
    Returns (Inr (coded us))"
proof -
  have "2 \<le> length (concat (map (stap_entry \<circ> nal_of) us))" using assms(1) by (cases us) (simp_all add: stap_entry_def)
  moreover have "stapa_loop (concat (map stap_entry (map nal_of us))) [] = Returns (Inr (coded us))"
    using stapa_loop_entries [of "map nal_of us" "[]"] assms(2) by (simp add: list_all_iff comp_def)
  ultimately show ?thesis using stap_header_type by (simp add: h264_unmarshal_def Let_def)
qed

lemma unmarshal_unhandled: "unhandled p \<Longrightarrow> \<exists>e. h264_unmarshal (Some p) = Returns (Inl e)"
  by (auto simp: unhandled_def h264_unmarshal_def Let_def)

lemma write_unhandled:
  assumes "hasKeyFrame h" and "unhandled p"
  shows "\<exists>e. h264_write_rtp put h (Some p) = Returns (e, h)"
  using unmarshal_unhandled [OF assms(2)] assms(1) by (auto simp: h264_write_rtp_def Let_def)

lemma record_packet:
  assumes "byte_sink put content" and "\<And>s d. fst (put s d) = None"
    and "hasKeyFrame h \<or> is_key_frame x" and "h264_unmarshal (Some x) = Returns (Inr d)"
  shows "\<exists>h'. write_packets (h264_write_rtp put) h [x] = Returns h' \<and> hasKeyFrame h' \<and>
    content (writer h') = content (writer h) @ d"
  using h264_write_data [OF assms] by fastforce

lemma record_later_fragments:
  assumes sink: "byte_sink put content" "\<And>s d. fst (put s d) = None"
  shows "hasKeyFrame h \<Longrightarrow> [] \<notin> set cs \<Longrightarrow>
    \<exists>h'. write_packets (h264_write_rtp put) h (fua_packets b False cs) = Returns h' \<and> hasKeyFrame h' \<and>
      content (writer h') = content (writer h) @ concat cs"
proof (induction cs arbitrary: h)
  case (Cons c cs)
  have "h264_unmarshal (Some ((28 OR (b AND 0x60)) # ((b AND 0x1F) OR (if False then 0x80 else if cs = [] then 0x40 else 0)) # c)) =
      Returns (Inr c)"
    by (rule unmarshal_fragment) (use Cons.prems(2) in auto)
  from h264_write_data [OF sink disjI1 [OF Cons.prems(1)] this] obtain h1 where
    "h264_write_rtp put h (Some (hd (fua_packets b False (c # cs)))) = Returns (None, h1)" "hasKeyFrame h1"
    "content (writer h1) = content (writer h) @ c" by auto
  then show ?case using Cons.IH [of h1] Cons.prems(2) by auto
qed simp

lemma record_fragments:
  assumes sink: "byte_sink put content" "\<And>s d. fst (put s d) = None"
    and "hasKeyFrame h" and "item_ok (Fragmented u cs)"
  shows "\<exists>h'. write_packets (h264_write_rtp put) h (fua_packets (hd u) True cs) = Returns h' \<and> hasKeyFrame h' \<and>
    content (writer h') = content (writer h) @ annexb_start_code @ u"
proof -
  obtain b t where u: "u = b # t" using assms(4) by (cases u) auto
  obtain c cs' where cs: "cs = c # cs'" using assms(4) by (cases cs) auto
  have c: "c \<noteq> []" "b AND 0x80 = 0" "[] \<notin> set cs'" "c @ concat cs' = t" using assms(4) by (auto simp: u cs)
  obtain h1 where h1: "h264_write_rtp put h (Some ((28 OR (b AND 0x60)) # ((b AND 0x1F) OR 0x80) # c)) = Returns (None, h1)"
      "hasKeyFrame h1" "content (writer h1) = content (writer h) @ annexb_start_code @ b # c"
    using h264_write_data [OF sink disjI1 [OF assms(3)] unmarshal_first_fragment [OF c(1,2)]] by blast
  from record_later_fragments [OF sink h1(2) c(3), of b] obtain h2 where
    "write_packets (h264_write_rtp put) h1 (fua_packets b False cs') = Returns h2" "hasKeyFrame h2"
    "content (writer h2) = content (writer h1) @ concat cs'" by blast
  then show ?thesis using h1 c(4) by (simp add: u cs)
qed

lemma record_item:
  assumes sink: "byte_sink put content" "\<And>s d. fst (put s d) = None"
    and "hasKeyFrame h \<or> starts_recording i" and "item_ok i"
  shows "\<exists>h'. write_packets (h264_write_rtp put) h (item_packets i) = Returns h' \<and> hasKeyFrame h' \<and>
    content (writer h') = content (writer h) @ coded (item_units i)"
proof (cases i)
  case (Single_Unit u)
  then show ?thesis
    using record_packet [OF sink _ unmarshal_single, of h u] assms(3,4) starts_key [of i] by auto
next
  case (Aggregation r us)
  have "hasKeyFrame h \<or> is_key_frame (hd (item_packets i))" using assms(3) starts_key [of i] by auto
  then show ?thesis
    using record_packet [OF sink _ unmarshal_aggregation, of h r us] assms(4) Aggregation by simp
next
  case (Fragmented u cs)
  then show ?thesis using record_fragments [OF sink _ assms(4) [unfolded Fragmented]] assms(3) by simp
next
  case (Unhandled p)
  then show ?thesis using write_unhandled [of h p put] assms(3,4) by auto
qed

lemma record_items:
  assumes sink: "byte_sink put content" "\<And>s d. fst (put s d) = None"
  shows "list_all item_ok is \<Longrightarrow> hasKeyFrame h \<or> is \<noteq> [] \<and> starts_recording (hd is) \<Longrightarrow>
    \<exists>h'. write_packets (h264_write_rtp put) h (concat (map item_packets is)) = Returns h' \<and>
      content (writer h') = content (writer h) @ coded (concat (map item_units is))"
proof (induction "is" arbitrary: h)
  case (Cons i "is")
  have "hasKeyFrame h \<or> starts_recording i" "item_ok i" using Cons.prems by auto
  from record_item [OF sink this] obtain h1 where
    "write_packets (h264_write_rtp put) h (item_packets i) = Returns h1" "hasKeyFrame h1"
    "content (writer h1) = content (writer h) @ coded (item_units i)" by blast
  then show ?case using Cons.IH [of h1] Cons.prems(1) by (auto simp: write_packets_append)
qed auto

text \<open>
  C15. What is recorded of a whole stream, into a file that takes every write: packets before the
  first one that starts with a sequence parameter set (alone or aggregated) are dropped; from that
  packet on, every unit of the stream is written in order behind a start code, whether it came in a
  packet of its own, aggregated, or in FU-A fragments, and nothing else. (No fragment is lost,
  and the forbidden bit of a fragmented unit is clear.)
\<close>

theorem recording_contents:
  assumes "byte_sink put content" and "\<And>s d. fst (put s d) = None"
    and "list_all (\<lambda>p. \<not> is_key_frame p) junk"
    and "starts_recording i" and "list_all item_ok (i # is)"
  shows "\<exists>h'. write_packets (h264_write_rtp put) (h264_new_with f) (junk @ concat (map item_packets (i # is))) = Returns h' \<and>
    content (writer h') =
      content f @ concat (map (\<lambda>u. annexb_start_code @ u) (concat (map item_units (i # is))))"
proof -
  let ?h = "h264_new_with f"
  have junk: "write_packets (h264_write_rtp put) ?h junk = Returns ?h"
    using assms(3) by (intro silent_until_key) (simp_all add: h264_new_with_def)
  have "hasKeyFrame ?h \<or> i # is \<noteq> [] \<and> starts_recording (hd (i # is))" using assms(4) by simp
  from record_items [OF assms(1,2,5) this] obtain h' where
    "write_packets (h264_write_rtp put) ?h (concat (map item_packets (i # is))) = Returns h'"
    "content (writer h') = content (writer ?h) @ coded (concat (map item_units (i # is)))" by blast
  then show ?thesis unfolding write_packets_append junk outcome.case by (simp add: h264_new_with_def)
qed

text \<open>A bare parameter set, a late aggregation, a unit in three fragments, an unknown packet.\<close>

theorem recording_contents_witness:
  "\<exists>h'. write_packets (h264_write_rtp mem_put) (h264_new_with [])
      [[0x41, 7, 7, 7], [0x67, 1, 2, 3], [0x78, 0, 2, 0x67, 1, 0, 1, 0x68],
       [0x7C, 0x85, 9], [0x7C, 0x05, 8], [0x7C, 0x45, 7, 6], [0x79, 1, 2]] = Returns h' \<and>
     writer h' = [0, 0, 0, 1, 0x67, 1, 2, 3, 0, 0, 0, 1, 0x67, 1, 0, 0, 0, 1, 0x68, 0, 0, 0, 1, 0x65, 9, 8, 7, 6]"
proof -
  let ?is = "[Aggregation 3 [[0x67, 1], [0x68]], Fragmented [0x65, 9, 8, 7, 6] [[9], [8], [7, 6]], Unhandled [0x79, 1, 2]]"
  have "\<exists>h'. write_packets (h264_write_rtp mem_put) (h264_new_with [])
      ([[0x41, 7, 7, 7]] @ concat (map item_packets (Single_Unit [0x67, 1, 2, 3] # ?is))) = Returns h' \<and>
      writer h' = [] @ concat (map (\<lambda>u. annexb_start_code @ u) (concat (map item_units (Single_Unit [0x67, 1, 2, 3] # ?is))))"
    by (rule recording_contents [OF mem.byte_sink_axioms])
      (simp_all add: mem_put_def is_key_frame_bytes nal_of_def single_unit_def unhandled_def)
  then show ?thesis
    by (simp add: annexb_start_code_def stap_entry_def push_bit_eq_mult del: write_packets.simps)
qed

theorem truncated_stapa_panics:
  "h264_write_rtp put (h264_new_with f) (Some [0x78, 0, 1, 0x67, 0]) = Panics"
  by (simp add: h264_write_rtp_def h264_new_with_def is_key_frame_bytes h264_unmarshal_def Let_def)

text \<open>
  C39. A remote peer can crash the recorder: any aggregation packet that starts with a sequence
  parameter set is taken for a key frame, whatever was recorded before, and with one more byte at
  its end makes reading the next length panic.
\<close>

theorem trailing_byte_panics:
  assumes "package_as_stapa (sps # params) = Returns pkt" and "Data sps \<noteq> []"
    and "UnitType (nal_of (Data sps)) = NalUnitTypeSPS"
    and "list_all (\<lambda>f. length (Data f) < 2 ^ 16) (sps # params)"
  shows "h264_write_rtp put h (Some (Data pkt @ [b])) = Panics"
  using sps_packet_is_key [OF assms(1-3), of "[b]"] unmarshal_trailing [OF assms(1,4), of b]
  by (simp add: h264_write_rtp_def Let_def)

theorem trailing_byte_panics_witness:
  "\<exists>pkt. package_as_stapa [nal_of [0x67, 1], nal_of [0x68, 2]] = Returns pkt \<and>
     h264_write_rtp mem_put (h264_new_with []) (Some (Data pkt @ [0])) = Panics"
proof -
  obtain pkt where p: "package_as_stapa [nal_of [0x67, 1], nal_of [0x68, 2]] = Returns pkt"
    by (simp add: package_as_stapa_def)
  from trailing_byte_panics [OF p] p show ?thesis by (simp add: nal_of_def)
qed

text \<open>Closing the G.711 recorder twice closes its file once; the second call reports no error.\<close>

theorem g711_close_twice:
  "g711_close close_file (snd (g711_close close_file i)) = (None, snd (g711_close close_file i))"
  by (simp add: g711_close_def split: option.splits)

end
