(* ===== verification/Media_Tracks.thy ===== *)
theory Media_Tracks
  imports Media_Setup Media_Writers
begin

text \<open>
  The receiving side of \<^verbatim>\<open>src/rtc/media.go\<close>: the tracks a connection delivers, the recorders they
  are written to, and \<^verbatim>\<open>doClose\<close>, which closes everything a call has opened. A recorder variable
  of the code is a Go interface: it is nil, or holds a recorder, or holds a nil pointer of a recorder
  type, which the test \<^verbatim>\<open>!= nil\<close> does not recognise (\<open>Typed_Nil\<close>).
\<close>

subsection \<open>What is open, and what is seen of it\<close>

datatype part = Peer_Connection | Video_Ingest | Audio_Ingest | Pcmu_File | Opus_File | H264_File | Receiver nat

datatype media_event =
  Log_Line string | Open_Part part | Start_Pli | Start_Workers | Add_Transceiver codec_kind |
  Give_Sdp "string \<times> string" | Take_Sdp "string \<times> string" | Close_Part part |
  Return_Error string | Wait_Workers | Tell_End

datatype 'w slot = Unset | Typed_Nil | Holds 'w

record ('s, 'o) media_parts =
  doClosed :: bool
  pcOpen :: bool
  vIngester :: bool
  aIngester :: bool
  daG711u :: "'s g711_writer slot"
  daOpus :: "'o slot"
  dvH264 :: "'s h264_writer slot"
  receivers :: nat

definition no_parts :: "('s, 'o) media_parts" where
  "no_parts = \<lparr> doClosed = False, pcOpen = False, vIngester = False, aIngester = False,
     daG711u = Unset, daOpus = Unset, dvH264 = Unset, receivers = 0 \<rparr>"

text \<open>The files and the Opus recorder (third-party). \<open>opus_new\<close> may return a nil recorder and no error.\<close>

record ('s, 'o) recorders =
  create_file :: "string \<Rightarrow> (string, 's) result"
  put_file :: "'s \<Rightarrow> bytes \<Rightarrow> string option \<times> 's"
  close_file :: "'s \<Rightarrow> string option \<times> 's"
  opus_new :: "string \<Rightarrow> 32 word \<Rightarrow> 16 word \<Rightarrow> (string, 'o option) result"
  opus_write :: "'o \<Rightarrow> rtp_header \<times> bytes \<Rightarrow> (string option \<times> 'o) outcome"
  opus_close :: "'o \<Rightarrow> string option \<times> 'o"

subsection \<open>Closing\<close>

fun slot_open :: "'w slot \<Rightarrow> bool" where
  "slot_open (Holds w) = True"
| "slot_open Unset = False"
| "slot_open Typed_Nil = False"

fun close_slot :: "('w \<Rightarrow> 'e option \<times> 'w) \<Rightarrow> 'w slot \<Rightarrow> 'w slot" where
  "close_slot cl (Holds w) = Holds (snd (cl w))"
| "close_slot cl Unset = Unset"
| "close_slot cl Typed_Nil = Typed_Nil"

definition open_parts :: "('s, 'o) media_parts \<Rightarrow> part list" where
  "open_parts m =
     (if pcOpen m then [Peer_Connection] else []) @ (if vIngester m then [Video_Ingest] else []) @
     (if aIngester m then [Audio_Ingest] else []) @ (if slot_open (daG711u m) then [Pcmu_File] else []) @
     (if slot_open (daOpus m) then [Opus_File] else []) @ (if slot_open (dvH264 m) then [H264_File] else []) @
     map Receiver [0..<receivers m]"

definition nil_recorder :: "('s, 'o) media_parts \<Rightarrow> bool" where
  "nil_recorder m = (daG711u m = Typed_Nil \<or> daOpus m = Typed_Nil \<or> dvH264 m = Typed_Nil)"

text \<open>\<^verbatim>\<open>Close\<close> on a nil recorder pointer reads a field of it.\<close>

definition do_close :: "('s, 'o) recorders \<Rightarrow> ('s, 'o) media_parts \<Rightarrow> (part list \<times> ('s, 'o) media_parts) outcome" where
  "do_close st m =
     (if doClosed m then Returns ([], m)
      else if nil_recorder m then Panics
      else Returns (open_parts m,
        m\<lparr> doClosed := True, daG711u := close_slot (g711_close (close_file st)) (daG711u m),
           daOpus := close_slot (opus_close st) (daOpus m),
           dvH264 := close_slot (h264_close (close_file st)) (dvH264 m) \<rparr>))"

subsection \<open>Writing a track to disk\<close>

text \<open>
  The results of \<^verbatim>\<open>track.ReadRTP\<close> while the context is alive; a failure says whether the context was
  done by then. The list ends when the loop's test finds the context done.
\<close>

datatype read = Packet rtp_header bytes | Failed string bool

datatype track_read_error = Read_Rtp string | Context_Error

fun write_track ::
  "('w \<Rightarrow> rtp_header \<times> bytes \<Rightarrow> ('e option \<times> 'w) outcome) \<Rightarrow> (bytes \<Rightarrow> bool) \<Rightarrow> 'w slot \<Rightarrow> read list \<Rightarrow>
   (track_read_error option \<times> 'w slot) outcome" where
  "write_track wr nil_panics w [] = Returns (Some Context_Error, w)"
| "write_track wr nil_panics w (Failed e over # rs) = Returns (if over then None else Some (Read_Rtp e), w)"
| "write_track wr nil_panics Unset (Packet h p # rs) = write_track wr nil_panics Unset rs"
| "write_track wr nil_panics Typed_Nil (Packet h p # rs) =
     (if nil_panics p then Panics else write_track wr nil_panics Typed_Nil rs)"
| "write_track wr nil_panics (Holds w) (Packet h p # rs) =
     (case wr w (h, p) of
        Panics \<Rightarrow> Panics
      | Returns (e, w1) \<Rightarrow> write_track wr nil_panics (Holds w1) rs)"

text \<open>The recorder is made for the first track that needs it, when a file is configured.\<close>

definition open_slot ::
  "(string \<Rightarrow> (string, 'w option) result) \<Rightarrow> string \<Rightarrow> string \<Rightarrow> 'w slot \<Rightarrow> string option \<times> 'w slot \<times> bool" where
  "open_slot new saved ext w =
     (if w = Unset \<and> saved \<noteq> [] then
        (case new (saved @ ext) of
           Inl e \<Rightarrow> (Some e, Typed_Nil, True)
         | Inr None \<Rightarrow> (None, Typed_Nil, True)
         | Inr (Some r) \<Rightarrow> (None, Holds r, True))
      else (None, w, False))"

subsection \<open>Handling a track\<close>

record track =
  trackKind :: codec_kind
  trackCodec :: codec
  trackHeaders :: string
  reads :: "read list"

datatype track_error =
  New_Audio_Dumper string | New_Video_Dumper string |
  Write_Audio_Disk track_read_error | Write_Video_Disk track_read_error

fun read_error_text :: "track_read_error \<Rightarrow> string" where
  "read_error_text (Read_Rtp e) = ''Read RTP: '' @ e"
| "read_error_text Context_Error = ''context canceled''"

definition track_line :: "track \<Rightarrow> string" where
  "track_line t =
     (let c = trackCodec t;
          desc = (if trackKind t = Video_Kind then ''fmtp='' @ fmtp c
                  else ''channels='' @ show_int (uint (channels c)));
          desc1 = (if trackHeaders t \<noteq> [] then desc @ '', header='' @ trackHeaders t else desc)
      in ''Got track '' @ mimeType c @ '', pt='' @ show_int (uint (payload c)) @ '', tbn='' @
           show_int (uint (clockRate c)) @ '', '' @ desc1)"

definition opus_track ::
  "('s, 'o) recorders \<Rightarrow> call_profile \<Rightarrow> track \<Rightarrow> ('s, 'o) media_parts \<Rightarrow>
   (track_error option \<times> ('s, 'o) media_parts \<times> media_event list) outcome" where
  "opus_track st cp t m =
     (let c = trackCodec t; name = SavedAudioFile cp @ ''.ogg'' in
      case open_slot (\<lambda>f. opus_new st f (clockRate c) (channels c)) (SavedAudioFile cp) ''.ogg'' (daOpus m) of
        (Some e, w, opened) \<Rightarrow> Returns (Some (New_Audio_Dumper e), m\<lparr> daOpus := w \<rparr>, [])
      | (None, w, opened) \<Rightarrow>
          (case write_track (opus_write st) (\<lambda>p. p \<noteq> []) w (reads t) of
             Panics \<Rightarrow> Panics
           | Returns (e, w1) \<Rightarrow> Returns (map_option Write_Audio_Disk e, m\<lparr> daOpus := w1 \<rparr>,
               (if opened then (if slot_open w then [Open_Part Opus_File] else []) @
                 [Log_Line (''Open ogg writer file='' @ name @ '', tbn='' @ show_int (uint (clockRate c)) @
                    '', channels='' @ show_int (uint (channels c)))] else []))))"

definition pcmu_track ::
  "('s, 'o) recorders \<Rightarrow> call_profile \<Rightarrow> track \<Rightarrow> ('s, 'o) media_parts \<Rightarrow>
   (track_error option \<times> ('s, 'o) media_parts \<times> media_event list) outcome" where
  "pcmu_track st cp t m =
     (let c = trackCodec t; name = SavedAudioFile cp @ ''.g711u'' in
      case open_slot (\<lambda>f. bind_result (g711_new (create_file st) f (clockRate c) (channels c)) (Inr \<circ> Some))
          (SavedAudioFile cp) ''.g711u'' (daG711u m) of
        (Some e, w, opened) \<Rightarrow> Returns (Some (New_Audio_Dumper e), m\<lparr> daG711u := w \<rparr>, [])
      | (None, w, opened) \<Rightarrow>
          (case write_track (\<lambda>i (h, p). g711_write_rtp (put_file st) i (Some p)) (\<lambda>p. True) w (reads t) of
             Panics \<Rightarrow> Panics
           | Returns (e, w1) \<Rightarrow> Returns (map_option Write_Audio_Disk e, m\<lparr> daG711u := w1 \<rparr>,
               (if opened then [Open_Part Pcmu_File,
                  Log_Line (''Open g711 writer file='' @ name @ '', tbn='' @ show_int (uint (clockRate c)) @
                    '', channels='' @ show_int (uint (channels c)))] else []))))"

definition h264_track ::
  "('s, 'o) recorders \<Rightarrow> call_profile \<Rightarrow> track \<Rightarrow> ('s, 'o) media_parts \<Rightarrow>
   (track_error option \<times> ('s, 'o) media_parts \<times> media_event list) outcome" where
  "h264_track st cp t m =
     (case open_slot (\<lambda>f. bind_result (h264_new (create_file st) f) (Inr \<circ> Some))
          (SavedVideoFile cp) ''.h264'' (dvH264 m) of
        (Some e, w, opened) \<Rightarrow> Returns (Some (New_Video_Dumper e), m\<lparr> dvH264 := w \<rparr>, [])
      | (None, w, opened) \<Rightarrow>
          (case write_track (\<lambda>i (h, p). h264_write_rtp (put_file st) i (Some p)) (\<lambda>p. p \<noteq> []) w (reads t) of
             Panics \<Rightarrow> Panics
           | Returns (e, w1) \<Rightarrow> Returns (map_option Write_Video_Disk e, m\<lparr> dvH264 := w1 \<rparr>,
               (if opened then [Open_Part H264_File,
                  Log_Line (''Open h264 writer file='' @ SavedVideoFile cp @ ''.h264'')] else []) @
               (case e of None \<Rightarrow> []
                | Some x \<Rightarrow> [Log_Line (''Write video disk, error '' @ read_error_text x)]))))"

definition handle_track ::
  "('s, 'o) recorders \<Rightarrow> call_profile \<Rightarrow> bool \<Rightarrow> track \<Rightarrow> ('s, 'o) media_parts \<Rightarrow>
   (track_error option \<times> ('s, 'o) media_parts \<times> media_event list) outcome" where
  "handle_track st cp saving t m =
     (if \<not> saving then Returns (None, m, [])
      else
        let m1 = m\<lparr> receivers := receivers m + 1 \<rparr>;
            ev = (if trackKind t = Audio_Kind then [] else [Start_Pli]) @
              [Open_Part (Receiver (receivers m)), Log_Line (track_line t)];
            mime = mimeType (trackCodec t);
            rest = (if mime = ''audio/opus'' then opus_track st cp t m1
              else if mime = ''audio/PCMU'' then pcmu_track st cp t m1
              else if mime = ''video/H264'' then h264_track st cp t m1
              else Returns (None, m1, [Log_Line (''Ignore track '' @ mime @ '' pt='' @
                show_int (uint (payload (trackCodec t))))]))
        in (case rest of Panics \<Rightarrow> Panics | Returns (e, m2, ev2) \<Rightarrow> Returns (e, m2, ev @ ev2)))"

text \<open>
  \<^verbatim>\<open>pc.OnTrack\<close>: an error cancels the context, so that a later track finds it done and reads nothing.
  The tracks of a call are handled in the order of their arrival, before the call is closed.
\<close>

fun on_tracks ::
  "('s, 'o) recorders \<Rightarrow> call_profile \<Rightarrow> bool \<Rightarrow> track list \<Rightarrow> ('s, 'o) media_parts \<Rightarrow>
   (('s, 'o) media_parts \<times> media_event list) outcome" where
  "on_tracks st cp saving [] m = Returns (m, [])"
| "on_tracks st cp saving (t # ts) m =
     (case handle_track st cp saving t m of
        Panics \<Rightarrow> Panics
      | Returns (e, m1, ev) \<Rightarrow>
          (case on_tracks st cp saving (if e = None then ts else map (\<lambda>u. u\<lparr> reads := [] \<rparr>) ts) m1 of
             Panics \<Rightarrow> Panics
           | Returns (m2, ev2) \<Rightarrow> Returns (m2, Log_Line ''Got pc.OnTrack'' # ev @ ev2)))"

subsection \<open>What is opened, closed and given in a run\<close>

definition given :: "media_event list \<Rightarrow> (string \<times> string) list" where
  "given ev = concat (map (\<lambda>e. case e of Give_Sdp d \<Rightarrow> [d] | _ \<Rightarrow> []) ev)"

definition opened_parts :: "media_event list \<Rightarrow> part list" where
  "opened_parts ev = concat (map (\<lambda>e. case e of Open_Part p \<Rightarrow> [p] | _ \<Rightarrow> []) ev)"

definition closed_parts :: "media_event list \<Rightarrow> part list" where
  "closed_parts ev = concat (map (\<lambda>e. case e of Close_Part p \<Rightarrow> [p] | _ \<Rightarrow> []) ev)"

lemma given_simps [simp]:
  "given [] = []" "given (xs @ ys) = given xs @ given ys" "given (Log_Line l # ev) = given ev"
  "given (Open_Part p # ev) = given ev" "given (Start_Pli # ev) = given ev"
  "given (Start_Workers # ev) = given ev" "given (Add_Transceiver k # ev) = given ev"
  "given (Give_Sdp d # ev) = d # given ev" "given (Close_Part p # ev) = given ev"
  "given (Take_Sdp d # ev) = given ev" "given (Return_Error e # ev) = given ev"
  "given (Wait_Workers # ev) = given ev" "given (Tell_End # ev) = given ev"
  "given (map Close_Part ps) = []" "given (map Open_Part ps) = []"
  by (simp_all add: given_def comp_def)

lemma opened_simps [simp]:
  "opened_parts [] = []" "opened_parts (xs @ ys) = opened_parts xs @ opened_parts ys"
  "opened_parts (Log_Line l # ev) = opened_parts ev" "opened_parts (Open_Part p # ev) = p # opened_parts ev"
  "opened_parts (Start_Pli # ev) = opened_parts ev" "opened_parts (Start_Workers # ev) = opened_parts ev"
  "opened_parts (Add_Transceiver k # ev) = opened_parts ev" "opened_parts (Give_Sdp d # ev) = opened_parts ev"
  "opened_parts (Close_Part p # ev) = opened_parts ev" "opened_parts (Wait_Workers # ev) = opened_parts ev"
  "opened_parts (Tell_End # ev) = opened_parts ev" "opened_parts (Take_Sdp d # ev) = opened_parts ev"
  "opened_parts (Return_Error e # ev) = opened_parts ev"
  "opened_parts (map Close_Part ps) = []" "opened_parts (map Open_Part ps) = ps"
  by (simp_all add: opened_parts_def comp_def)

lemma closed_simps [simp]:
  "closed_parts [] = []" "closed_parts (xs @ ys) = closed_parts xs @ closed_parts ys"
  "closed_parts (Log_Line l # ev) = closed_parts ev" "closed_parts (Open_Part p # ev) = closed_parts ev"
  "closed_parts (Start_Pli # ev) = closed_parts ev" "closed_parts (Start_Workers # ev) = closed_parts ev"
  "closed_parts (Add_Transceiver k # ev) = closed_parts ev" "closed_parts (Give_Sdp d # ev) = closed_parts ev"
  "closed_parts (Close_Part p # ev) = p # closed_parts ev" "closed_parts (Wait_Workers # ev) = closed_parts ev"
  "closed_parts (Tell_End # ev) = closed_parts ev" "closed_parts (Take_Sdp d # ev) = closed_parts ev"
  "closed_parts (Return_Error e # ev) = closed_parts ev"
  "closed_parts (map Close_Part ps) = ps" "closed_parts (map Open_Part ps) = []"
  by (simp_all add: closed_parts_def comp_def)

lemma open_parts_distinct: "distinct (open_parts m)"
  by (auto simp: open_parts_def distinct_map inj_on_def)

text \<open>Events that neither close anything, nor give a description, nor tell the end.\<close>

definition quiet :: "media_event list \<Rightarrow> bool" where
  "quiet ev = (Tell_End \<notin> set ev \<and> closed_parts ev = [] \<and> given ev = [])"

lemma quiet_Nil [simp]: "quiet []"
  by (simp add: quiet_def)

lemma quiet_append [simp]: "quiet (xs @ ys) = (quiet xs \<and> quiet ys)"
  by (auto simp: quiet_def)

lemma quiet_Cons [simp]:
  "quiet (Log_Line l # ev) = quiet ev" "quiet (Open_Part p # ev) = quiet ev"
  "quiet (Start_Pli # ev) = quiet ev" "quiet (Start_Workers # ev) = quiet ev"
  "quiet (Add_Transceiver k # ev) = quiet ev" "quiet (Take_Sdp d # ev) = quiet ev"
  by (auto simp: quiet_def)

text \<open>A step that opens: what is open after it is what was open before it and what its events open.\<close>

definition opens :: "('s, 'o) media_parts \<Rightarrow> ('s, 'o) media_parts \<Rightarrow> media_event list \<Rightarrow> bool" where
  "opens m m' ev = (quiet ev \<and> mset (open_parts m') = mset (open_parts m) + mset (opened_parts ev) \<and>
     doClosed m' = doClosed m)"

lemma opens_trans: "opens m m1 ev \<Longrightarrow> opens m1 m2 ev' \<Longrightarrow> opens m m2 (ev @ ev')"
  by (simp add: opens_def)

lemma opens_log: "opens m m' ev \<Longrightarrow> opens m m' (Log_Line l # ev)"
  by (simp add: opens_def)

lemma write_track_slot:
  "write_track wr np w rs = Returns (e, w') \<Longrightarrow> slot_open w' = slot_open w \<and> (w' = Typed_Nil) = (w = Typed_Nil)"
  by (induction wr np w rs rule: write_track.induct) (auto split: if_splits outcome.splits)

lemma open_slot_slot:
  "open_slot new saved ext w = (None, w', opened) \<Longrightarrow>
     (opened \<longrightarrow> w = Unset \<and> w' \<noteq> Unset) \<and> (\<not> opened \<longrightarrow> w' = w)"
  by (auto simp: open_slot_def split: if_splits sum.splits option.splits)

lemma open_slot_err: "open_slot new saved ext w = (Some e, w', opened) \<Longrightarrow> w' = Typed_Nil"
  by (auto simp: open_slot_def split: if_splits sum.splits option.splits)

lemma slot_open_Unset: "slot_open w \<Longrightarrow> w \<noteq> Unset \<and> w \<noteq> Typed_Nil"
  by (cases w) auto

lemma not_slot_open: "\<not> slot_open w \<longleftrightarrow> w = Unset \<or> w = Typed_Nil"
  by (cases w) auto

lemma open_parts_slots:
  "slot_open w = slot_open (daOpus m) \<Longrightarrow> open_parts (m\<lparr> daOpus := w \<rparr>) = open_parts m"
  "slot_open g = slot_open (daG711u m) \<Longrightarrow> open_parts (m\<lparr> daG711u := g \<rparr>) = open_parts m"
  "slot_open h = slot_open (dvH264 m) \<Longrightarrow> open_parts (m\<lparr> dvH264 := h \<rparr>) = open_parts m"
  by (simp_all add: open_parts_def)

lemma open_parts_new:
  "\<not> slot_open (daOpus m) \<Longrightarrow> slot_open w \<Longrightarrow>
     mset (open_parts (m\<lparr> daOpus := w \<rparr>)) = mset (open_parts m) + {#Opus_File#}"
  "\<not> slot_open (daG711u m) \<Longrightarrow> slot_open g \<Longrightarrow>
     mset (open_parts (m\<lparr> daG711u := g \<rparr>)) = mset (open_parts m) + {#Pcmu_File#}"
  "\<not> slot_open (dvH264 m) \<Longrightarrow> slot_open h \<Longrightarrow>
     mset (open_parts (m\<lparr> dvH264 := h \<rparr>)) = mset (open_parts m) + {#H264_File#}"
  by (simp_all add: open_parts_def)

lemma open_parts_receiver:
  "mset (open_parts (m\<lparr> receivers := receivers m + 1 \<rparr>)) = mset (open_parts m) + {#Receiver (receivers m)#}"
  by (simp add: open_parts_def)

text \<open>What making a recorder, when one is needed, and writing a track to it leave behind.\<close>

lemma slot_step:
  assumes "open_slot new saved ext w0 = (None, w, op)" and "write_track wr np w rs = Returns (e, w1)"
    and "w1 \<noteq> Typed_Nil"
  shows "if op then w0 = Unset \<and> slot_open w \<and> slot_open w1 else w = w0 \<and> slot_open w1 = slot_open w0"
  using open_slot_slot [OF assms(1)] write_track_slot [OF assms(2)] assms(3) not_slot_open [of w] by auto

lemmas track_splits = prod.splits option.splits outcome.splits if_splits

lemma opus_track_opens:
  "opus_track st cp t m = Returns (e, m', ev) \<Longrightarrow> \<not> nil_recorder m' \<Longrightarrow> opens m m' ev"
  by (auto simp: opus_track_def Let_def nil_recorder_def opens_def open_parts_slots open_parts_new
      split: track_splits dest: open_slot_err slot_step)

lemma pcmu_track_opens:
  "pcmu_track st cp t m = Returns (e, m', ev) \<Longrightarrow> \<not> nil_recorder m' \<Longrightarrow> opens m m' ev"
  by (auto simp: pcmu_track_def Let_def nil_recorder_def opens_def open_parts_slots open_parts_new
      split: track_splits dest: open_slot_err slot_step)

lemma h264_track_opens:
  "h264_track st cp t m = Returns (e, m', ev) \<Longrightarrow> \<not> nil_recorder m' \<Longrightarrow> opens m m' ev"
  by (auto simp: h264_track_def Let_def nil_recorder_def opens_def open_parts_slots open_parts_new
      split: track_splits dest: open_slot_err slot_step)

lemma handle_track_opens:
  assumes "handle_track st cp saving t m = Returns (e, m', ev)" and "\<not> nil_recorder m'"
  shows "opens m m' ev"
proof (cases saving)
  case True
  let ?m1 = "m\<lparr> receivers := receivers m + 1 \<rparr>"
  let ?ev = "(if trackKind t = Audio_Kind then [] else [Start_Pli]) @
    [Open_Part (Receiver (receivers m)), Log_Line (track_line t)]"
  have start: "opens m ?m1 ?ev" using open_parts_receiver [of m] by (simp add: opens_def)
  obtain ev2 where ev: "ev = ?ev @ ev2" and rest: "opens ?m1 m' ev2"
    using assms True opus_track_opens [of st cp t ?m1 e m'] pcmu_track_opens [of st cp t ?m1 e m']
      h264_track_opens [of st cp t ?m1 e m']
    by (auto simp: handle_track_def Let_def opens_def split: outcome.splits if_splits)
  show ?thesis using opens_trans [OF start rest] ev by simp
qed (use assms in \<open>simp add: handle_track_def opens_def\<close>)

text \<open>A nil recorder stays one, so a call with one cannot be closed.\<close>

lemma write_track_nil: "write_track wr np Typed_Nil rs = Returns (e, w) \<Longrightarrow> w = Typed_Nil"
  using write_track_slot by blast

lemma open_slot_nil: "open_slot new saved ext Typed_Nil = (None, Typed_Nil, False)"
  by (simp add: open_slot_def)

lemma handle_track_nil:
  "handle_track st cp saving t m = Returns (e, m', ev) \<Longrightarrow> nil_recorder m \<Longrightarrow> nil_recorder m'"
  by (auto simp: handle_track_def Let_def opus_track_def pcmu_track_def h264_track_def nil_recorder_def open_slot_nil
      split: track_splits dest: write_track_nil)

lemma on_tracks_Cons:
  assumes "on_tracks st cp saving (t # ts) m = Returns (m', ev)"
  obtains e m1 ev1 ev2 where "handle_track st cp saving t m = Returns (e, m1, ev1)"
    and "on_tracks st cp saving (if e = None then ts else map (\<lambda>u. u\<lparr> reads := [] \<rparr>) ts) m1 = Returns (m', ev2)"
    and "ev = Log_Line ''Got pc.OnTrack'' # ev1 @ ev2"
  using assms by (auto split: outcome.splits)

lemma on_tracks_nil:
  "on_tracks st cp saving ts m = Returns (m', ev) \<Longrightarrow> nil_recorder m \<Longrightarrow> nil_recorder m'"
proof (induction st cp saving ts m arbitrary: m' ev rule: on_tracks.induct)
  case (2 st cp saving t ts m)
  from 2(2) obtain e m1 ev1 ev2 where h: "handle_track st cp saving t m = Returns (e, m1, ev1)"
    and r: "on_tracks st cp saving (if e = None then ts else map (\<lambda>u. u\<lparr> reads := [] \<rparr>) ts) m1 = Returns (m', ev2)"
    by (rule on_tracks_Cons)
  show ?case by (rule 2(1) [OF h refl refl r handle_track_nil [OF h 2(3)]])
qed simp

lemma on_tracks_opens:
  "on_tracks st cp saving ts m = Returns (m', ev) \<Longrightarrow> \<not> nil_recorder m' \<Longrightarrow> opens m m' ev"
proof (induction st cp saving ts m arbitrary: m' ev rule: on_tracks.induct)
  case (2 st cp saving t ts m)
  from 2(2) obtain e m1 ev1 ev2 where h: "handle_track st cp saving t m = Returns (e, m1, ev1)"
    and r: "on_tracks st cp saving (if e = None then ts else map (\<lambda>u. u\<lparr> reads := [] \<rparr>) ts) m1 = Returns (m', ev2)"
    and ev: "ev = Log_Line ''Got pc.OnTrack'' # ev1 @ ev2" by (rule on_tracks_Cons)
  have "\<not> nil_recorder m1" using on_tracks_nil [OF r] 2(3) by blast
  from opens_trans [OF handle_track_opens [OF h this] 2(1) [OF h refl refl r 2(3)]]
  show ?case using ev opens_log by simp
qed (simp add: opens_def)

text \<open>No track closes the call.\<close>

lemma handle_track_keeps_open:
  "handle_track st cp saving t m = Returns (e, m', ev) \<Longrightarrow> doClosed m' = doClosed m"
  by (auto simp: handle_track_def Let_def opus_track_def pcmu_track_def h264_track_def split: track_splits)

lemma on_tracks_keeps_open:
  "on_tracks st cp saving ts m = Returns (m', ev) \<Longrightarrow> doClosed m' = doClosed m"
proof (induction st cp saving ts m arbitrary: m' ev rule: on_tracks.induct)
  case (2 st cp saving t ts m)
  from 2(2) obtain e m1 ev1 ev2 where h: "handle_track st cp saving t m = Returns (e, m1, ev1)"
    and r: "on_tracks st cp saving (if e = None then ts else map (\<lambda>u. u\<lparr> reads := [] \<rparr>) ts) m1 = Returns (m', ev2)"
    by (rule on_tracks_Cons)
  show ?case using 2(1) [OF h refl refl r] handle_track_keeps_open [OF h] by simp
qed simp

definition sample_header :: rtp_header where
  "sample_header = \<lparr> Marker = False, PayloadType = 0, SequenceNumber = 1, Timestamp = 160, SSRC = 7, Extensions = [] \<rparr>"

end
