(* ===== verification/Packetizer.thy ===== *)
theory Packetizer
  imports H264_Stream Rtp_H264
begin

unbundle bit_operations_syntax

text \<open>
  The H.264 packetizer behind a track: \<^verbatim>\<open>H264Payloader\<close> of the vendored \<^verbatim>\<open>pion/rtp\<close>, which every
  sample of the video ingester goes through. It cuts a sample at its start codes, drops access unit
  delimiters and filler data, sends a unit that fits as it is and a longer one in FU-A fragments.
  A unit without start codes inside is shown to become one packet or a sequence of fragments that
  the depacketizer puts together again.
\<close>

subsection \<open>Cutting a sample at its start codes\<close>

text \<open>\<^verbatim>\<open>nextInd\<close>: position \<open>i\<close>, \<open>z\<close> zero bytes seen; the place of the next start code and its length.\<close>

fun next_ind :: "nat \<Rightarrow> nat \<Rightarrow> bytes \<Rightarrow> (nat \<times> nat) option" where
  "next_ind i z [] = None"
| "next_ind i z (b # bs) =
     (if b = 0 then next_ind (i + 1) (z + 1) bs
      else if b = 1 \<and> 2 \<le> z then Some (i - z, z + 1)
      else next_ind (i + 1) 0 bs)"

lemma next_ind_bounds: "next_ind i z bs = Some (s, l) \<Longrightarrow> z \<le> i \<Longrightarrow> i < s + l \<and> s + l \<le> i + length bs"
proof (induction i z bs rule: next_ind.induct)
  case (2 i z b bs)
  then show ?case by (fastforce split: if_splits)
qed simp

text \<open>The loop of \<^verbatim>\<open>emitNalus\<close> from the end of a start code on.\<close>

function emit_from :: "bytes \<Rightarrow> nat \<Rightarrow> bytes list" where
  "emit_from nals prevStart =
     (case next_ind prevStart 0 (drop prevStart nals) of
        None \<Rightarrow> [drop prevStart nals]
      | Some (nextIndStart, nextIndLen) \<Rightarrow>
          take (nextIndStart - prevStart) (drop prevStart nals) # emit_from nals (nextIndStart + nextIndLen))"
  by pat_completeness auto
termination
proof (relation "measure (\<lambda>(nals, prevStart). length nals - prevStart)", goal_cases)
  case (2 nals prevStart x s l)
  then have n: "next_ind prevStart 0 (drop prevStart nals) = Some (s, l)" by simp
  then have "prevStart < length nals" by (cases "prevStart < length nals") simp_all
  then show ?case using next_ind_bounds [OF n] by (simp add: diff_less_mono2)
qed simp

declare emit_from.simps [simp del]

definition emit_nalus :: "bytes \<Rightarrow> bytes list" where
  "emit_nalus nals =
     (case next_ind 0 0 nals of
        None \<Rightarrow> [nals]
      | Some (nextIndStart, nextIndLen) \<Rightarrow> emit_from nals (nextIndStart + nextIndLen))"

subsection \<open>The payloads of a unit\<close>

text \<open>The FU-A loop: \<open>dat\<close> is what remains of the unit, \<open>full\<close> the length it had at first.\<close>

function fua_loop :: "nat \<Rightarrow> u8 \<Rightarrow> u8 \<Rightarrow> nat \<Rightarrow> bytes \<Rightarrow> bytes list" where
  "fua_loop maxFragmentSize naluRefIdc naluType full dat =
     (if min maxFragmentSize (length dat) = 0 then []
      else
        let currentFragmentSize = min maxFragmentSize (length dat);
            flag = (if length dat = full then 0x80
              else if length dat - currentFragmentSize = 0 then 0x40 else 0)
        in ((28 OR naluRefIdc) # (naluType OR flag) # take currentFragmentSize dat) #
             fua_loop maxFragmentSize naluRefIdc naluType full (drop currentFragmentSize dat))"
  by pat_completeness auto
termination
  by (relation "measure (\<lambda>(n, r, t, full, dat). length dat)") auto

declare fua_loop.simps [simp del]

definition nalu_payloads :: "nat \<Rightarrow> bytes \<Rightarrow> bytes list" where
  "nalu_payloads mtu nalu =
     (case nalu of
        [] \<Rightarrow> []
      | b # body \<Rightarrow>
          let naluType = b AND 0x1F; naluRefIdc = b AND 0x60 in
          if naluType = 9 \<or> naluType = 12 then []
          else if length nalu \<le> mtu then [nalu]
          else fua_loop (mtu - 2) naluRefIdc naluType (length body) body)"

definition h264_payload :: "nat \<Rightarrow> bytes \<Rightarrow> bytes list" where
  "h264_payload mtu payload =
     (if payload = [] then [] else concat (map (nalu_payloads mtu) (emit_nalus payload)))"

text \<open>
  A sample of a track: its packets, with 12 bytes of the outgoing packets (of at most 1200 bytes)
  taken by the header.
\<close>

definition packetize :: "nat \<Rightarrow> bytes \<Rightarrow> bytes list" where
  "packetize mtu payload = (if payload = [] then [] else h264_payload (mtu - 12) payload)"

definition rtpOutboundMTU :: nat where
  "rtpOutboundMTU = 1200"

lemma packetize_payload: "packetize mtu = h264_payload (mtu - 12)"
  by (auto simp: packetize_def h264_payload_def)

subsection \<open>Units without a start code inside\<close>

lemma next_ind_free: "free_from z bs \<longleftrightarrow> next_ind i z bs = None"
  by (induction i z bs rule: next_ind.induct) auto

lemma emit_unit: "\<not> sublist [0, 0, 1] u \<Longrightarrow> emit_nalus u = [u]"
  using next_ind_free [of 0 u 0] free_from_sublist [of 0 u] by (simp add: emit_nalus_def)

text \<open>The pieces the loop cuts.\<close>

fun pieces :: "nat \<Rightarrow> nat \<Rightarrow> bytes \<Rightarrow> bytes list" where
  "pieces 0 n d = []"
| "pieces (Suc k) n d = (if n = 0 \<or> d = [] then [] else take n d # pieces k n (drop n d))"

lemma pieces_all: "length d \<le> k \<Longrightarrow> 0 < n \<Longrightarrow> concat (pieces k n d) = d \<and> [] \<notin> set (pieces k n d)"
proof (induction k n d rule: pieces.induct)
  case (2 k n d)
  then show ?case by (cases "d = []") auto
qed simp

lemma pieces_Nil: "length d \<le> k \<Longrightarrow> 0 < n \<Longrightarrow> pieces k n d = [] \<longleftrightarrow> d = []"
  using pieces_all [of d k n] by (cases k) auto

lemma fua_loop_pieces:
  "length d \<le> k \<Longrightarrow> 0 < n \<Longrightarrow> length d \<le> full \<Longrightarrow>
     fua_loop n (b AND 0x60) (b AND 0x1F) full d = fua_packets b (length d = full) (pieces k n d)"
proof (induction k n d rule: pieces.induct)
  case (2 k n d)
  show ?case
  proof (cases "d = []")
    case True
    then show ?thesis by (simp add: fua_loop.simps)
  next
    case False
    let ?r = "drop n d"
    have r: "length ?r \<le> k" "length ?r \<noteq> full" "length ?r \<le> full" using 2(2-4) False by (cases d; simp)+
    have t: "take (min n (length d)) d = take n d" "drop (min n (length d)) d = ?r"
      by (simp_all add: min_def)
    have z: "(length d - min n (length d) = 0) = (pieces k n ?r = [])" "\<not> min n (length d) = 0"
      using pieces_Nil [OF r(1) 2(3)] False 2(3) by auto
    have ih: "fua_loop n (b AND 0x60) (b AND 0x1F) full ?r = fua_packets b False (pieces k n ?r)"
      using 2(1) [OF _ r(1) 2(3) r(3)] r(2) False 2(3) by simp
    have p: "pieces (Suc k) n d = take n d # pieces k n ?r" using False 2(3) by simp
    show ?thesis
      unfolding p fua_packets.simps fua_loop.simps [of n _ _ full d] Let_def t ih z(1) if_not_P [OF z(2)] by simp
  qed
qed (simp add: fua_loop.simps)

text \<open>
  A unit without a start code inside and not of the two types that are dropped is sent as it is, or
  in the fragments of its body.
\<close>

lemma payload_unit:
  assumes "u = b # body" and "\<not> sublist [0, 0, 1] u" and "b AND 0x1F \<noteq> 9" and "b AND 0x1F \<noteq> 12"
  shows "h264_payload mtu u =
    (if length u \<le> mtu then [u] else fua_loop (mtu - 2) (b AND 0x60) (b AND 0x1F) (length body) body)"
  using assms emit_unit [OF assms(2)] by (simp add: h264_payload_def nalu_payloads_def Let_def)

lemma payload_fragments:
  assumes "u = b # body" and "\<not> sublist [0, 0, 1] u" and "b AND 0x1F \<noteq> 9" and "b AND 0x1F \<noteq> 12"
    and "mtu < length u" and "2 < mtu"
  shows "\<exists>cs. h264_payload mtu u = fua_packets b True cs \<and> cs \<noteq> [] \<and> [] \<notin> set cs \<and> concat cs = body"
proof -
  let ?cs = "pieces (length body) (mtu - 2) body"
  have p: "concat ?cs = body" "[] \<notin> set ?cs" using pieces_all [of body "length body" "mtu - 2"] assms(6) by auto
  have "?cs \<noteq> []" using pieces_Nil [of body "length body" "mtu - 2"] assms(1,5,6) by auto
  moreover have "h264_payload mtu u = fua_packets b True ?cs"
    using payload_unit [OF assms(1-4)] fua_loop_pieces [of body "length body" "mtu - 2" "length body" b] assms(5,6)
    by simp
  ultimately show ?thesis using p by blast
qed

end
