(* ===== verification/Loopback.thy ===== *)
theory Loopback
  imports Media_Tracks Packetizer
begin

text \<open>
  The two ends of a video call together: a file is read and played by the video ingester
  (\<^verbatim>\<open>src/rtc/ingester.go\<close>), its samples are cut into RTP payloads by the packetizer of the track
  (\<open>Packetizer\<close>), these are recorded by the H.264 recorder (\<^verbatim>\<open>src/rtc/h264writer\<close>), and the
  recording is read again (\<^verbatim>\<open>src/rtc/h264reader\<close>). The network between the two ends is taken to
  deliver every packet, in order.
\<close>

subsection \<open>Streams of access units\<close>

text \<open>An access unit: a slice, with or without parameter sets before it.\<close>

type_synonym access_unit = "(bytes \<times> bytes) option \<times> bytes"

fun au_units :: "access_unit \<Rightarrow> bytes list" where
  "au_units (None, u) = [u]"
| "au_units (Some (s, p), u) = [s, p, u]"

definition stream_units :: "access_unit list \<Rightarrow> bytes list" where
  "stream_units aus = concat (map au_units aus)"

text \<open>
  A unit the packetizer does not drop (access unit delimiters and filler data it does), and the
  recorder can take: of a type from 1 to 23, longer than two bytes, its forbidden bit clear.
\<close>

definition param_ok :: "u8 \<Rightarrow> bytes \<Rightarrow> bool" where
  "param_ok t d = (unit_ok d \<and> UnitType (nal_of d) = t \<and> length d < 2 ^ 16)"

definition slice_ok :: "bytes \<Rightarrow> bool" where
  "slice_ok u = (unit_ok u \<and> single_unit u \<and> \<not> is_param (nal_of u) \<and> \<not> is_sei u \<and>
     hd u AND 0x80 = 0 \<and> UnitType (nal_of u) \<noteq> 9 \<and> UnitType (nal_of u) \<noteq> 12)"

text \<open>The two parameter sets fit one packet together; a slice may have any length.\<close>

fun au_ok :: "nat \<Rightarrow> access_unit \<Rightarrow> bool" where
  "au_ok mtu (None, u) = slice_ok u"
| "au_ok mtu (Some (s, p), u) = (param_ok NalUnitTypeSPS s \<and> param_ok NalUnitTypePPS p \<and>
     length s + length p + 5 \<le> mtu \<and> slice_ok u)"

fun au_samples :: "int \<Rightarrow> access_unit \<Rightarrow> (bytes \<times> int) list" where
  "au_samples d (None, u) = unit_samples d None None (nal_of u)"
| "au_samples d (Some (s, p), u) = unit_samples d (Some (nal_of s)) (Some (nal_of p)) (nal_of u)"

lemma plan_of_units:
  "list_all (au_ok mtu) aus \<Longrightarrow>
     video_plan d None None (map nal_of (stream_units aus)) = concat (map (au_samples d) aus)"
proof (induction aus)
  case (Cons au aus)
  obtain ps u where au: "au = (ps, u)" by fastforce
  show ?case using Cons sps_not_pps
    by (cases ps) (auto simp: au stream_units_def param_ok_def slice_ok_def is_param_def)
qed (simp add: stream_units_def)

lemma stream_units_nonempty:
  assumes "aus \<noteq> []"
  shows "stream_units aus \<noteq> []"
proof -
  obtain au rest where "aus = au # rest" using assms by (cases aus) auto
  moreover have "au_units au \<noteq> []" by (cases au rule: au_units.cases) auto
  ultimately show ?thesis by (simp add: stream_units_def)
qed

lemma stream_units_ok: "list_all (au_ok mtu) aus \<Longrightarrow> list_all unit_ok (stream_units aus)"
proof (induction aus)
  case (Cons au aus)
  obtain ps u where au: "au = (ps, u)" by fastforce
  show ?case using Cons by (cases ps) (auto simp: au stream_units_def param_ok_def slice_ok_def)
qed (simp add: stream_units_def)

lemma stream_units_not_sei: "list_all (au_ok mtu) aus \<Longrightarrow> list_all (\<lambda>u. \<not> is_sei u) (stream_units aus)"
proof (induction aus)
  case (Cons au aus)
  obtain ps u where au: "au = (ps, u)" by fastforce
  show ?case using Cons by (cases ps) (auto simp: au stream_units_def param_ok_def slice_ok_def is_sei_def)
qed (simp add: stream_units_def)

subsection \<open>The packets of an access unit\<close>

definition au_items :: "(bytes \<times> int) list \<Rightarrow> access_unit \<Rightarrow> rtp_item list \<Rightarrow> nat \<Rightarrow> bool" where
  "au_items xs au is mtu = (concat (map (h264_payload mtu \<circ> fst) xs) = concat (map item_packets is) \<and>
     list_all item_ok is \<and> concat (map item_units is) = au_units au)"

lemma slice_item:
  assumes "slice_ok u" and "2 < mtu"
  shows "\<exists>i. h264_payload mtu u = item_packets i \<and> item_ok i \<and> item_units i = [u]"
proof -
  obtain b t where u: "u = b # t" using assms(1) by (cases u) (auto simp: slice_ok_def unit_ok_def)
  have ok: "\<not> sublist [0, 0, 1] u" "b AND 0x1F \<noteq> 9" "b AND 0x1F \<noteq> 12" "b AND 0x80 = 0" "single_unit u"
    using assms(1) by (simp_all add: slice_ok_def unit_ok_def u nal_of_def)
  show ?thesis
  proof (cases "length u \<le> mtu")
    case True
    then show ?thesis using payload_unit [OF u ok(1-3), of mtu] ok(5) by (intro exI [of _ "Single_Unit u"]) simp
  next
    case False
    then obtain cs where "h264_payload mtu u = fua_packets b True cs" "cs \<noteq> []" "[] \<notin> set cs" "concat cs = t"
      using payload_fragments [OF u ok(1-3), of mtu] assms(2) by auto
    then show ?thesis using ok(4) by (intro exI [of _ "Fragmented u cs"]) (simp add: u)
  qed
qed

lemma sublist_zeros_append: "last xs \<noteq> 0 \<Longrightarrow> \<not> sublist [0, 0, 1] xs \<Longrightarrow> \<not> sublist [0, 0, 1 :: u8] ys \<Longrightarrow>
  xs \<noteq> [] \<Longrightarrow> \<not> sublist [0, 0, 1] (xs @ ys)"
  by (auto simp: sublist_append append_eq_Cons_conv suffix_def prefix_def Cons_eq_append_conv)

text \<open>The two length bytes before a unit make no start code either.\<close>

lemma entry_no_code:
  assumes "unit_ok d" and "hd d \<noteq> 0" and "length d < 2 ^ 16"
  shows "\<not> sublist [0, 0, 1] (stap_entry (nal_of d)) \<and> stap_entry (nal_of d) \<noteq> [] \<and> last (stap_entry (nal_of d)) \<noteq> 0"
proof -
  let ?hi = "word_of_nat (length d div 2 ^ 8) :: u8" and ?lo = "word_of_nat (length d) :: u8"
  have "d \<noteq> []" using assms(1) by (simp add: unit_ok_def)
  then have z: "\<not> (?hi = 0 \<and> ?lo = 0)" using stap_entry_size [of "nal_of d"] assms(3) by auto
  obtain b t where d: "d = b # t" "b \<noteq> 0" using \<open>d \<noteq> []\<close> assms(2) by (cases d) auto
  have "\<not> sublist [0, 0, 1] d" using assms(1) by (simp add: unit_ok_def)
  then have "\<not> sublist [0, 0, 1] (?hi # ?lo # d)" using z d by (auto simp: sublist_Cons_right)
  then show ?thesis using assms(1) by (simp add: stap_entry_def unit_ok_def)
qed

lemma param_head: "param_ok t d \<Longrightarrow> t \<noteq> 0 \<Longrightarrow> hd d \<noteq> 0"
  by (auto simp: param_ok_def nal_of_def)

lemma params_item:
  assumes "param_ok NalUnitTypeSPS s" and "param_ok NalUnitTypePPS p" and "length s + length p + 5 \<le> mtu"
    and "package_as_stapa [nal_of s, nal_of p] = Returns q"
  shows "h264_payload mtu (Data q) = item_packets (Aggregation (RefIdc (nal_of s)) [s, p])"
proof -
  let ?h = "(push_bit 5 (RefIdc (nal_of s)) AND 0x60) OR 24"
  have q: "Data q = ?h # stap_entry (nal_of s) @ stap_entry (nal_of p)" using assms(4) by (auto simp: package_as_stapa_def)
  have e: "\<not> sublist [0, 0, 1] (stap_entry (nal_of d)) \<and> stap_entry (nal_of d) \<noteq> [] \<and> last (stap_entry (nal_of d)) \<noteq> 0"
    if "param_ok t d" "t \<noteq> 0" for t d
    using entry_no_code [of d] param_head [OF that] that by (simp add: param_ok_def)
  have s: "NalUnitTypeSPS \<noteq> 0" and p: "NalUnitTypePPS \<noteq> 0" by simp_all
  have h: "?h AND 0x1F = 24" by (rule stap_header_type)
  then have "?h \<noteq> 0" by auto
  then have "\<not> sublist [0, 0, 1] (Data q)"
    using sublist_zeros_append e [OF assms(1) s] e [OF assms(2) p] by (simp add: q sublist_Cons_right)
  moreover have "length (Data q) \<le> mtu" using assms(3) by (simp add: q stap_entry_def)
  ultimately show ?thesis using payload_unit [OF q] h by (simp add: q)
qed

lemma au_sent:
  assumes "au_ok mtu au" and "2 < mtu"
  shows "\<exists>is. au_items (au_samples d au) au is mtu \<and>
    (fst au \<noteq> None \<longrightarrow> is \<noteq> [] \<and> starts_recording (hd is))"
proof -
  obtain ps u where au: "au = (ps, u)" by fastforce
  have "slice_ok u" using assms(1) by (cases ps) (auto simp: au)
  from slice_item [OF this assms(2)] obtain i where i: "h264_payload mtu u = item_packets i" "item_ok i" "item_units i = [u]"
    by blast
  show ?thesis
  proof (cases ps)
    case None
    then show ?thesis using i by (intro exI [of _ "[i]"]) (simp add: au au_items_def unit_samples_def)
  next
    case (Some sp)
    obtain s p where sp: "sp = (s, p)" by fastforce
    obtain q where q: "package_as_stapa [nal_of s, nal_of p] = Returns q" by (simp add: package_as_stapa_def)
    have ok: "param_ok NalUnitTypeSPS s" "param_ok NalUnitTypePPS p" "length s + length p + 5 \<le> mtu"
      using assms(1) by (auto simp: au Some sp)
    let ?i = "Aggregation (RefIdc (nal_of s)) [s, p]"
    have a: "item_ok ?i" "starts_recording ?i" using ok by (simp_all add: param_ok_def unit_ok_def)
    then show ?thesis using params_item [OF ok q] i q
      by (intro exI [of _ "[?i, i]"]) (simp add: au Some sp au_items_def unit_samples_def)
  qed
qed

lemma stream_sent:
  assumes "2 < mtu"
  shows "list_all (au_ok mtu) aus \<Longrightarrow>
    \<exists>is. concat (map (h264_payload mtu \<circ> fst) (concat (map (au_samples d) aus))) = concat (map item_packets is) \<and>
      list_all item_ok is \<and> concat (map item_units is) = stream_units aus \<and>
      (aus \<noteq> [] \<and> fst (hd aus) \<noteq> None \<longrightarrow> is \<noteq> [] \<and> starts_recording (hd is))"
proof (induction aus)
  case Nil
  show ?case by (intro exI [of _ "[]"]) (simp add: stream_units_def)
next
  case (Cons au aus)
  obtain is1 where is1: "au_items (au_samples d au) au is1 mtu"
    "fst au \<noteq> None \<longrightarrow> is1 \<noteq> [] \<and> starts_recording (hd is1)"
    using au_sent [OF _ assms, of au d] Cons.prems by auto
  have "list_all (au_ok mtu) aus" using Cons.prems by simp
  from Cons.IH [OF this] obtain is2 where "concat (map (h264_payload mtu \<circ> fst) (concat (map (au_samples d) aus))) = concat (map item_packets is2)"
    "list_all item_ok is2" "concat (map item_units is2) = stream_units aus"
    by blast
  then show ?case using is1 by (intro exI [of _ "is1 @ is2"]) (simp add: au_items_def stream_units_def hd_append comp_def)
qed

subsection \<open>Reading the recording\<close>

lemma coded_annexb: "coded (u # us) = annexb True u (map (Pair True) us)"
proof -
  have "tail_bytes (map (Pair True) us) = coded us" for us
    by (induction us) (simp_all add: start_code_def annexb_start_code_def)
  then show ?thesis by (simp add: annexb_def start_code_def annexb_start_code_def)
qed

lemma delivered_all: "list_all (\<lambda>u. \<not> is_sei u) (u # us) \<Longrightarrow> delivered u (map (Pair True) us) = u # us"
  by (induction us arbitrary: u) simp_all

lemma recording_read:
  assumes "list_all (au_ok mtu) aus" and "aus \<noteq> []"
  shows "next_nals (length (stream_units aus) + n) (fresh_reader [ReadOk (coded (stream_units aus))]) =
    Returns (map (\<lambda>e. Inr (nal_of e)) (stream_units aus) @ replicate n (Inl EOF))"
proof -
  obtain u us where u: "stream_units aus = u # us"
    using stream_units_nonempty [OF assms(2)] by (cases "stream_units aus") auto
  have ok: "list_all unit_ok (u # us)" "list_all (\<lambda>u. \<not> is_sei u) (u # us)"
    using stream_units_ok [OF assms(1)] stream_units_not_sei [OF assms(1)] u by simp_all
  have src: "good_source (fresh_reader [ReadOk (coded (u # us))])"
    by (simp add: good_source_def fresh_reader_def annexb_start_code_def)
  have "concat (map result_bytes [ReadOk (coded (u # us))]) = annexb True u (map (Pair True) us)"
    using coded_annexb [of u us] by simp
  from annexb_nals [OF src this, of n] ok delivered_all [OF ok(2)] show ?thesis
    by (simp only: u) (simp add: list_all_iff)
qed

subsection \<open>Playing a stream\<close>

text \<open>A track that sends the packets of each sample, and keeps the list of all payloads it sent.\<close>

definition send_payloads ::
  "nat \<Rightarrow> (unit, unit) rtp_interceptor \<Rightarrow> bytes list \<Rightarrow> bytes \<times> int \<Rightarrow> unit option \<times> bytes list" where
  "send_payloads mtu ri s x = (None, s @ packetize mtu (fst x))"

lemma played_sent:
  "\<exists>ri'. played (write_hooked hook (send_payloads mtu)) xs (ri, s) =
     (ri', s @ concat (map (packetize mtu \<circ> fst) xs))"
proof (induction xs arbitrary: ri s)
  case (Cons x xs)
  have "played (write_hooked hook (send_payloads mtu)) (x # xs) (ri, s) =
      played (write_hooked hook (send_payloads mtu)) xs (install_hook hook ri, s @ packetize mtu (fst x))"
    by (simp add: played_def write_hooked_def send_payloads_def)
  then show ?case using Cons [of "install_hook hook ri" "s @ packetize mtu (fst x)"] by simp
qed (simp add: played_def)

lemma stream_played:
  assumes "open_file (sourceVideo v) = Inr s0" and "good_source (fresh_reader s0)"
    and "concat (map result_bytes s0) = coded (stream_units aus)" and "list_all (au_ok k) aus"
    and "aus \<noteq> []" and "0 < fps v" and "fps v < 2 ^ 63"
    and "2 * length (stream_units aus) + 2 \<le> ctx"
  shows "\<exists>ri now' clk'. ingest_video open_file (send_payloads mtu) work ctx now v [] =
      Returns (End_Of_File, (ri, concat (map (packetize mtu \<circ> fst)
        (concat (map (au_samples (1000000000 div fps v)) aus)))), now', clk')"
proof -
  obtain u us where u: "stream_units aus = u # us" using stream_units_nonempty [OF assms(5)] by (cases "stream_units aus") auto
  have ok: "unit_ok u" "list_all (\<lambda>(l, e). unit_ok e) (map (Pair True) us)"
    using stream_units_ok [OF assms(4)] u by (simp_all add: list_all_iff)
  have del: "delivered u (map (Pair True) us) = u # us"
    using delivered_all stream_units_not_sei [OF assms(4)] u by metis
  have w: "fst (send_payloads mtu ri s x) = None" for ri s x by (simp add: send_payloads_def)
  have src: "concat (map result_bytes s0) = annexb True u (map (Pair True) us)"
    using assms(3) coded_annexb [of u us] u by simp
  let ?plan = "concat (map (au_samples (1000000000 div fps v)) aus)"
  have plan: "video_plan (1000000000 div fps v) None None (map nal_of (u # us)) = ?plan"
    using plan_of_units [OF assms(4)] u by metis
  from file_played [where open_file = open_file and wr = "send_payloads mtu" and work = work and ctx = ctx and now = now
      and v = v and s = "[]", OF assms(1,2) src ok assms(6,7) w] assms(8)
  obtain now' clk' where "ingest_video open_file (send_payloads mtu) work ctx now v [] =
      Returns (End_Of_File, played (write_hooked strip_marker_hook (send_payloads mtu)) ?plan (markerInterceptor v, []), now', clk')"
    unfolding del u plan by auto
  moreover obtain ri where "played (write_hooked strip_marker_hook (send_payloads mtu)) ?plan (markerInterceptor v, []) =
      (ri, [] @ concat (map (packetize mtu \<circ> fst) ?plan))"
    using played_sent by blast
  ultimately show ?thesis by auto
qed

text \<open>
  C3. A video call end to end: what the ingester plays of a file of access units, the first with its
  parameter sets, cut into RTP packets of at most \<open>mtu\<close> bytes (1200 in the program, \<open>rtpOutboundMTU\<close>) by the track's packetizer (units
  that do not fit in FU-A fragments), and saved by the recorder into a file that takes every write, is
  that stream of units again: reading the recording with the H.264 reader gives the units of the
  file, in order, and then the end of the file. (The file has no access unit delimiters and no filler
  data, which the packetizer drops; two parameter sets fit one packet; no packet is lost.)
\<close>

theorem played_recorded_read:
  assumes "open_file (sourceVideo v) = Inr s0" and "good_source (fresh_reader s0)"
    and "concat (map result_bytes s0) = coded (stream_units aus)" and "list_all (au_ok (mtu - 12)) aus"
    and "aus \<noteq> []" and "fst (hd aus) \<noteq> None" and "0 < fps v" and "fps v < 2 ^ 63"
    and "2 * length (stream_units aus) + 2 \<le> ctx" and "14 < mtu"
  shows "\<exists>ri payloads now' clk' h.
    ingest_video open_file (send_payloads mtu) work ctx now v [] = Returns (End_Of_File, (ri, payloads), now', clk') \<and>
    write_packets (h264_write_rtp mem_put) (h264_new_with []) payloads = Returns h \<and>
    next_nals (length (stream_units aus) + n) (fresh_reader [ReadOk (writer h)]) =
      Returns (map (\<lambda>e. Inr (nal_of e)) (stream_units aus) @ replicate n (Inl EOF))"
proof -
  let ?sent = "concat (map (packetize mtu \<circ> fst) (concat (map (au_samples (1000000000 div fps v)) aus)))"
  obtain ri now' clk' where i: "ingest_video open_file (send_payloads mtu) work ctx now v [] =
      Returns (End_Of_File, (ri, ?sent), now', clk')"
    using stream_played [where open_file = open_file, OF assms(1-5,7-9)] by blast
  obtain "is" where is_ok: "?sent = concat (map item_packets is)" "list_all item_ok is"
    "concat (map item_units is) = stream_units aus" "is \<noteq> [] \<and> starts_recording (hd is)"
    using stream_sent [of "mtu - 12", OF _ assms(4)] assms(5,6,10) unfolding packetize_payload by fastforce
  have fst: "fst (mem_put s d) = None" for s d by (simp add: mem_put_def)
  from record_items [OF mem.byte_sink_axioms fst is_ok(2), of "h264_new_with []"] is_ok(4)
  obtain h where "write_packets (h264_write_rtp mem_put) (h264_new_with []) ?sent = Returns h"
    "writer h = coded (stream_units aus)" unfolding is_ok(1,3) by (auto simp: h264_new_with_def)
  then show ?thesis using i recording_read [OF assms(4,5), of n] by metis
qed

text \<open>Packets of at most 21 bytes, so payloads of at most nine: the parameter sets fit one, the slice goes in two fragments.\<close>

theorem played_recorded_read_witness:
  "\<exists>ri payloads now' clk' h.
    ingest_video (\<lambda>_. Inr [ReadOk [0, 0, 0, 1, 0x67, 9, 0, 0, 0, 1, 0x68, 5], ReadOk [0, 0, 0, 1, 0x65, 1, 2, 3, 4, 5, 6, 7, 8, 9]])
      (send_payloads 21) (\<lambda>_. 0) 9 0 ((new_video_ingester ''a.h264'')\<lparr> fps := 25 \<rparr>) [] =
      Returns (End_Of_File, (ri, payloads), now', clk') \<and>
    write_packets (h264_write_rtp mem_put) (h264_new_with []) payloads = Returns h \<and>
    next_nals (3 + 1) (fresh_reader [ReadOk (writer h)]) =
      Returns [Inr (nal_of [0x67, 9]), Inr (nal_of [0x68, 5]), Inr (nal_of [0x65, 1, 2, 3, 4, 5, 6, 7, 8, 9]), Inl EOF]"
proof -
  let ?aus = "[(Some ([0x67, 9], [0x68, 5]), [0x65, 1, 2, 3, 4, 5, 6, 7, 8, 9])] :: access_unit list"
  have ok: "list_all (au_ok (21 - 12)) ?aus"
    by (auto simp: param_ok_def slice_ok_def unit_ok_def single_unit_def is_param_def is_sei_def nal_of_def
        NalUnitTypeSPS_def NalUnitTypePPS_def NalUnitTypeSEI_def sublist_Cons_right)
  have us: "stream_units ?aus = [[0x67, 9], [0x68, 5], [0x65, 1, 2, 3, 4, 5, 6, 7, 8, 9]]" by (simp add: stream_units_def)
  have four: "4 = Suc (Suc (Suc (Suc 0)))" by simp
  show ?thesis
    using played_recorded_read [of "\<lambda>_. Inr [ReadOk [0, 0, 0, 1, 0x67, 9, 0, 0, 0, 1, 0x68, 5],
          ReadOk [0, 0, 0, 1, 0x65, 1, 2, 3, 4, 5, 6, 7, 8, 9]]"
        "(new_video_ingester ''a.h264'')\<lparr> fps := 25 \<rparr>"
        "[ReadOk [0, 0, 0, 1, 0x67, 9, 0, 0, 0, 1, 0x68, 5], ReadOk [0, 0, 0, 1, 0x65, 1, 2, 3, 4, 5, 6, 7, 8, 9]]"
        ?aus 21 9 "\<lambda>_. 0" 0 1] ok
    unfolding us
    by (simp add: good_source_def fresh_reader_def annexb_start_code_def new_video_ingester_def four
        del: next_nals.simps write_packets.simps)
qed

end
