(* ===== verification/Call_Report.thy ===== *)
theory Call_Report
  imports Call_Profile
begin

text \<open>
  Call reports (\<^verbatim>\<open>src/report/report.go\<close>), the log helper that fills their \<^verbatim>\<open>Logs\<close>
  (\<^verbatim>\<open>src/sip/ua.go\<close>), and the call details file \<^verbatim>\<open>main\<close> writes them to (\<^verbatim>\<open>src/main.go\<close>). Times
  are numbers; their formatting and \<^verbatim>\<open>json.MarshalIndent\<close> are arguments.
\<close>

record call_report =
  CallIndex :: int
  Account :: string
  AccountIndex :: int
  RemoteAccount :: string
  CallStartTime :: int
  CallEndTime :: int
  CallID :: string
  CallResult :: string
  Logs :: "string list"

definition marshal_json_time :: "(int \<Rightarrow> string) \<Rightarrow> int \<Rightarrow> string" where
  "marshal_json_time format_time jt = CHR 0x22 # format_time jt @ [CHR 0x22]"

subsection \<open>The log helper\<close>

text \<open>What a log call leaves behind: the report's own log lines and the lines of the program's log.\<close>

definition log_line ::
  "call_profile \<Rightarrow> (int \<Rightarrow> string) \<Rightarrow> int \<Rightarrow> string \<Rightarrow> call_report \<times> string list \<Rightarrow> call_report \<times> string list" where
  "log_line cp format_time now msg = (\<lambda>(cr, out).
     let cr1 = (if CallDetailsFile cp
                then cr\<lparr> Logs := Logs cr @ [format_time now @ '' '' @ msg] \<rparr> else cr);
         out1 = (if CallDetailsInLog cp
                 then out @ [''['' @ Account cr1 @ ''-'' @ RemoteAccount cr1 @ ''] '' @ msg] else out)
     in (cr1, out1))"

lemma log_line_frame [simp]:
  "CallIndex (fst (log_line cp ft t m p)) = CallIndex (fst p)"
  "Account (fst (log_line cp ft t m p)) = Account (fst p)"
  "AccountIndex (fst (log_line cp ft t m p)) = AccountIndex (fst p)"
  "RemoteAccount (fst (log_line cp ft t m p)) = RemoteAccount (fst p)"
  "CallStartTime (fst (log_line cp ft t m p)) = CallStartTime (fst p)"
  "CallEndTime (fst (log_line cp ft t m p)) = CallEndTime (fst p)"
  "CallID (fst (log_line cp ft t m p)) = CallID (fst p)"
  "CallResult (fst (log_line cp ft t m p)) = CallResult (fst p)"
  by (simp_all add: log_line_def split_def Let_def)

subsection \<open>The call details file\<close>

text \<open>An open file: its content and the write position.\<close>

record text_file =
  content :: string
  pos :: nat

definition write_string :: "string \<Rightarrow> text_file \<Rightarrow> text_file" where
  "write_string d f =
     f\<lparr> content := take (pos f) (content f) @ d @ drop (pos f + length d) (content f),
        pos := pos f + length d \<rparr>"

definition seek_end :: "nat \<Rightarrow> text_file \<Rightarrow> text_file" where
  "seek_end back f = f\<lparr> pos := length (content f) - back \<rparr>"

definition newline :: string where
  "newline = [CHR 0x0A]"

definition open_details :: text_file where
  "open_details = write_string (''['' @ newline) \<lparr> content = [], pos = 0 \<rparr>"

text \<open>One report; a marshalling error leaves the file as it is.\<close>

definition write_report ::
  "(call_report \<Rightarrow> (string, string) result) \<Rightarrow> call_report \<Rightarrow> text_file \<Rightarrow> text_file" where
  "write_report marshal cr f =
     (case marshal cr of
        Inl _ \<Rightarrow> f
      | Inr jsonbytes \<Rightarrow> write_string ('','' @ newline) (write_string jsonbytes f))"

text \<open>The deferred function that ends the file: it overwrites the last separator.\<close>

definition close_details :: "text_file \<Rightarrow> text_file" where
  "close_details f =
     (let f1 = (if pos f = 2 then seek_end 1 f else seek_end 2 f)
      in write_string (newline @ '']'') f1)"

definition at_end :: "text_file \<Rightarrow> bool" where
  "at_end f = (pos f = length (content f))"

lemma write_string_at_end:
  "at_end f \<Longrightarrow> at_end (write_string d f) \<and> content (write_string d f) = content f @ d"
  by (simp add: at_end_def write_string_def)

definition report_entries :: "(call_report \<Rightarrow> (string, string) result) \<Rightarrow> call_report list \<Rightarrow> string list" where
  "report_entries marshal crs = concat (map (\<lambda>cr. case marshal cr of Inl _ \<Rightarrow> [] | Inr j \<Rightarrow> [j]) crs)"

lemma write_reports_content:
  "at_end f \<Longrightarrow> at_end (fold (write_report marshal) crs f) \<and>
     content (fold (write_report marshal) crs f) =
       content f @ concat (map (\<lambda>j. j @ '','' @ newline) (report_entries marshal crs))"
proof (induction crs arbitrary: f)
  case Nil
  then show ?case by (simp add: report_entries_def)
next
  case (Cons cr crs)
  let ?f = "write_report marshal cr f"
  have "at_end ?f \<and> content ?f =
      content f @ concat (map (\<lambda>j. j @ '','' @ newline) (report_entries marshal [cr]))"
    using Cons.prems write_string_at_end
    by (auto simp: write_report_def report_entries_def split: sum.splits)
  then show ?case using Cons.IH [of ?f] by (simp add: report_entries_def)
qed

lemma entries_join:
  "js \<noteq> [] \<Longrightarrow> concat (map (\<lambda>j. j @ sep) js) = join_with sep js @ sep"
  by (induction sep js rule: join_with.induct) auto

text \<open>
  C32. The call details file is a JSON array: the reports in the order they were
  written, separated by a comma and a line break, between brackets; an empty array when there was
  none.
\<close>

lemma details_file_array:
  "content (close_details (fold (write_report marshal) crs open_details)) =
     ''['' @ newline @
     (if report_entries marshal crs = [] then []
      else join_with ('','' @ newline) (report_entries marshal crs) @ newline) @ '']''"
proof -
  let ?f = "fold (write_report marshal) crs open_details" and ?js = "report_entries marshal crs"
  have f: "at_end ?f" "content ?f = ''['' @ newline @ concat (map (\<lambda>j. j @ '','' @ newline) ?js)"
    using write_reports_content [of open_details marshal crs]
    by (simp_all add: open_details_def write_string_def at_end_def newline_def)
  show ?thesis
  proof (cases "?js = []")
    case True
    then show ?thesis using f
      by (simp add: close_details_def at_end_def newline_def seek_end_def write_string_def)
  next
    case False
    then have "content ?f = (''['' @ newline @ join_with ('','' @ newline) ?js) @ '','' @ newline"
      using f(2) entries_join [OF False] by simp
    then show ?thesis using f(1) False
      by (simp add: close_details_def at_end_def newline_def seek_end_def write_string_def Let_def)
  qed
qed

end
