(* ===== verification/Dispatcher.thy ===== *)
theory Dispatcher
  imports Call_Report "HOL-Library.Signed_Division"
begin

text \<open>
  The main loops of \<^verbatim>\<open>src/main.go\<close>: \<^verbatim>\<open>uac\<close> starts calls in batches on the user agents that are
  idle and counts the reports they send back; \<^verbatim>\<open>uas\<close> only counts. A buffered channel is the list
  of the messages in it; each case of a \<^verbatim>\<open>select\<close> is a choice that must be ready. One step of the
  model is one pass of the loop body, since between two passes nothing but the user agents
  moves. The user agents are the environment here; they are the subject of the theory \<open>Ua\<close>.
\<close>

subsection \<open>Code that may block\<close>

text \<open>\<open>Hangs\<close>: a channel operation that blocks for ever, or a loop that does not end.\<close>

datatype 'a progress = Proceeds 'a | Hangs | Crashes

fun and_then :: "'a progress \<Rightarrow> ('a \<Rightarrow> 'b progress) \<Rightarrow> 'b progress" where
  "and_then (Proceeds a) f = f a"
| "and_then Hangs f = Hangs"
| "and_then Crashes f = Crashes"

lemma and_then_Proceeds_iff:
  "and_then m f = Proceeds b \<longleftrightarrow> (\<exists>a. m = Proceeds a \<and> f a = Proceeds b)"
  by (cases m) auto

subsection \<open>State\<close>

text \<open>What both loops keep, and what \<^verbatim>\<open>uac\<close> adds.\<close>

record main_state =
  completedCalls :: int
  okCalls :: int
  badCalls :: int
  unknownCalls :: int
  mainCancelled :: bool
  callEndChan :: "call_report list"
  cdf :: "text_file option"
  mainLog :: "string list"

record uac_state = main_state +
  inCall :: "bool list"
  idleUac :: int
  startedCalls :: int
  startedAllCallsPrinted :: bool
  idleUacZeroPrinted :: bool
  startCallChan :: "int list list"
  batchPos :: int
  nextUac :: nat
  sleptMs :: int

definition agents_of :: "call_profile \<Rightarrow> nat" where
  [go_eval]: "agents_of cp = nat (MaxConcurrentCalls cp)"

definition uac_init :: "call_profile \<Rightarrow> text_file option \<Rightarrow> uac_state" where
  "uac_init cp f =
     \<lparr> completedCalls = 0, okCalls = 0, badCalls = 0, unknownCalls = 0, mainCancelled = False,
       callEndChan = [], cdf = f, mainLog = [],
       inCall = replicate (agents_of cp) False, idleUac = MaxConcurrentCalls cp, startedCalls = 0,
       startedAllCallsPrinted = False, idleUacZeroPrinted = False,
       startCallChan = replicate (agents_of cp) [], batchPos = 0, nextUac = 0, sleptMs = 0 \<rparr>"

definition uas_init :: "text_file option \<Rightarrow> main_state" where
  "uas_init f =
     \<lparr> completedCalls = 0, okCalls = 0, badCalls = 0, unknownCalls = 0, mainCancelled = False,
       callEndChan = [], cdf = f, mainLog = [] \<rparr>"

subsection \<open>Counting a report\<close>

definition count_result :: "string \<Rightarrow> 'z main_state_scheme \<Rightarrow> 'z main_state_scheme" where
  "count_result res s =
     (if res = ''Successful'' then s\<lparr> okCalls := okCalls s + 1 \<rparr>
      else if res = ''Failed'' then s\<lparr> badCalls := badCalls s + 1 \<rparr>
      else if res = '''' then s\<lparr> unknownCalls := unknownCalls s + 1 \<rparr>
      else s)"

definition write_details ::
  "(call_report \<Rightarrow> (string, string) result) \<Rightarrow> call_report \<Rightarrow> 'z main_state_scheme \<Rightarrow> 'z main_state_scheme" where
  "write_details marshal cr s =
     (case cdf s of
        None \<Rightarrow> s
      | Some f \<Rightarrow>
          s\<lparr> cdf := Some (write_report marshal cr f),
             mainLog := (case marshal cr of
                Inl e \<Rightarrow> mainLog s @ [''write call details error: '' @ e]
              | Inr _ \<Rightarrow> mainLog s) \<rparr>)"

definition uac_call_ended ::
  "(call_report \<Rightarrow> (string, string) result) \<Rightarrow> call_report \<Rightarrow> uac_state \<Rightarrow> uac_state progress" where
  "uac_call_ended marshal cr s =
     (if AccountIndex cr < 0 \<or> int (length (inCall s)) \<le> AccountIndex cr then Crashes
      else let k = nat (AccountIndex cr) in
        if inCall s ! k then
          let s1 = s\<lparr> completedCalls := completedCalls s + 1, inCall := (inCall s)[k := False],
                      idleUac := idleUac s + 1, idleUacZeroPrinted := False \<rparr>;
              cr1 = cr\<lparr> AccountIndex := AccountIndex cr + 1 \<rparr>
          in Proceeds (count_result (CallResult cr1) (write_details marshal cr1 s1))
        else Proceeds (s\<lparr> mainLog := mainLog s @
               [''What's wrong, ['' @ Account cr @ ''] not in call?''] \<rparr>))"

definition uas_call_ended ::
  "(call_report \<Rightarrow> (string, string) result) \<Rightarrow> call_report \<Rightarrow> 'z main_state_scheme \<Rightarrow> 'z main_state_scheme progress" where
  "uas_call_ended marshal cr s =
     (let s1 = s\<lparr> completedCalls := completedCalls s + 1 \<rparr>;
          cr1 = cr\<lparr> AccountIndex := AccountIndex cr + 1 \<rparr>
      in Proceeds (write_details marshal cr1 (count_result (CallResult cr1) s1)))"

text \<open>
  The inner loop of a received report: \<^verbatim>\<open>eccLen\<close> more reports are taken, as many as were waiting
  when it was received. A receive from an empty channel would block.
\<close>

fun drain ::
  "(call_report \<Rightarrow> 'z main_state_scheme \<Rightarrow> 'z main_state_scheme progress) \<Rightarrow> nat \<Rightarrow> call_report \<Rightarrow>
   'z main_state_scheme \<Rightarrow> 'z main_state_scheme progress" where
  "drain ended 0 cr s = ended cr s"
| "drain ended (Suc eccLen) cr s =
     and_then (ended cr s) (\<lambda>s1.
       case callEndChan s1 of
         [] \<Rightarrow> Hangs
       | cr1 # rest \<Rightarrow> drain ended eccLen cr1 (s1\<lparr> callEndChan := rest \<rparr>))"

subsection \<open>The loop of the calling side\<close>

datatype select_case = Ctx_Done | Call_End | Default_Case

fun ready :: "select_case \<Rightarrow> 'z main_state_scheme \<Rightarrow> bool" where
  "ready Ctx_Done s = mainCancelled s"
| "ready Call_End s = (callEndChan s \<noteq> [])"
| "ready Default_Case s = (\<not> mainCancelled s \<and> callEndChan s = [])"

datatype loop_exit = Again | Left

definition receive_reports ::
  "(call_report \<Rightarrow> 'z main_state_scheme \<Rightarrow> 'z main_state_scheme progress) \<Rightarrow>
   'z main_state_scheme \<Rightarrow> 'z main_state_scheme progress" where
  "receive_reports ended s =
     (case callEndChan s of
        [] \<Rightarrow> Hangs
      | cr # rest \<Rightarrow> drain ended (length rest) cr (s\<lparr> callEndChan := rest \<rparr>))"

text \<open>The search for an idle agent, \<^verbatim>\<open>for { if !inCall[j%n] { break }; j++ }\<close>.\<close>

partial_function (option) find_idle :: "bool list \<Rightarrow> nat \<Rightarrow> nat \<Rightarrow> nat progress option" where
  "find_idle busy n j =
     (if n = 0 \<or> length busy \<le> j mod n then Some Crashes
      else if \<not> busy ! (j mod n) then Some (Proceeds j)
      else find_idle busy n (j + 1))"

definition start_call :: "call_profile \<Rightarrow> uac_state \<Rightarrow> uac_state progress" where
  "start_call cp s =
     (let n = agents_of cp in
      and_then (case find_idle (inCall s) n (nextUac s) of None \<Rightarrow> Hangs | Some p \<Rightarrow> p) (\<lambda>j.
        let k = j mod n in
        if startCallChan s ! k \<noteq> [] then Hangs
        else Proceeds (s\<lparr> inCall := (inCall s)[k := True], idleUac := idleUac s - 1,
               startedCalls := startedCalls s + 1,
               startCallChan := (startCallChan s)[k := [startedCalls s + 1]],
               nextUac := (j + 1) mod n,
               sleptMs := sleptMs s + max 0 (BatchInterval cp sdiv CallsPerBatch cp) \<rparr>)))"

text \<open>What follows the \<^verbatim>\<open>select\<close>: stop, wait, or start a call; \<^verbatim>\<open>i--; continue\<close> keeps \<open>batchPos\<close>.\<close>

definition after_select :: "call_profile \<Rightarrow> uac_state \<Rightarrow> (loop_exit \<times> uac_state) progress" where
  "after_select cp s =
     (if 0 < TotalCalls cp \<and> TotalCalls cp \<le> completedCalls s then
        Proceeds (Left, s\<lparr> mainCancelled := True,
          mainLog := mainLog s @ [''All calls completed, let all UACs exit''] \<rparr>)
      else if 0 < TotalCalls cp \<and> TotalCalls cp \<le> startedCalls s then
        Proceeds (Again, if startedAllCallsPrinted s then s\<lparr> sleptMs := sleptMs s + 100 \<rparr>
          else s\<lparr> mainLog := mainLog s @ [''Finish starting all calls and wait for all calls to finish...''],
                  startedAllCallsPrinted := True, sleptMs := sleptMs s + 100 \<rparr>)
      else if idleUac s = 0 then
        Proceeds (Again, s\<lparr> idleUacZeroPrinted := True, sleptMs := sleptMs s + 100 \<rparr>)
      else and_then (start_call cp s) (\<lambda>s1. Proceeds (Again, s1\<lparr> batchPos := batchPos s1 + 1 \<rparr>)))"

definition uac_body ::
  "(call_report \<Rightarrow> (string, string) result) \<Rightarrow> call_profile \<Rightarrow> select_case \<Rightarrow> uac_state \<Rightarrow>
   (loop_exit \<times> uac_state) progress" where
  "uac_body marshal cp c s =
     (case c of
        Ctx_Done \<Rightarrow> Proceeds (Left, s)
      | Call_End \<Rightarrow> and_then (receive_reports (uac_call_ended marshal) s) (after_select cp)
      | Default_Case \<Rightarrow> after_select cp s)"

text \<open>One pass: the body when the batch is not complete, else the outer loop begins the next batch.\<close>

definition uac_pass ::
  "(call_report \<Rightarrow> (string, string) result) \<Rightarrow> call_profile \<Rightarrow> select_case \<Rightarrow> uac_state \<Rightarrow>
   (loop_exit \<times> uac_state) progress" where
  "uac_pass marshal cp c s =
     (if batchPos s < CallsPerBatch cp then uac_body marshal cp c s
      else Proceeds (Again, s\<lparr> batchPos := 0 \<rparr>))"

subsection \<open>The loop of the answering side\<close>

definition uas_pass ::
  "(call_report \<Rightarrow> (string, string) result) \<Rightarrow> call_profile \<Rightarrow> select_case \<Rightarrow> main_state \<Rightarrow>
   (loop_exit \<times> main_state) progress" where
  "uas_pass marshal cp c s =
     (case c of
        Ctx_Done \<Rightarrow> Proceeds (Left, s)
      | Call_End \<Rightarrow>
          and_then (receive_reports (uas_call_ended marshal) s) (\<lambda>s1.
            if 0 < TotalCalls cp \<and> TotalCalls cp \<le> completedCalls s1 then
              Proceeds (Left, s1\<lparr> mainCancelled := True,
                mainLog := mainLog s1 @ [''All calls completed, let all UASs exit''] \<rparr>)
            else Proceeds (Again, s1))
      | Default_Case \<Rightarrow> Hangs)"

end
