(* ===== verification/Dispatch_System.thy ===== *)
theory Dispatch_System
  imports Dispatcher
begin

text \<open>
  The calling side as a system: the main loop of \<open>Dispatcher\<close> with its user agents, each of which
  takes a call from its start channel when it has none and reports that call once. What every
  reachable state satisfies, and what follows for the main loop: it never blocks, never indexes
  out of range, and its counters add up.
\<close>

subsection \<open>The system\<close>

record bench =
  main :: uac_state
  agents :: "int option list"
  running :: bool

inductive bench_step ::
  "(call_report \<Rightarrow> (string, string) result) \<Rightarrow> call_profile \<Rightarrow> bench \<Rightarrow> bench \<Rightarrow> bool"
  for marshal :: "call_report \<Rightarrow> (string, string) result" and cp :: call_profile where
  main_pass: "running b \<Longrightarrow> ready c (main b) \<Longrightarrow> uac_pass marshal cp c (main b) = Proceeds (e, s) \<Longrightarrow>
    bench_step marshal cp b (b\<lparr> main := s, running := (e = Again) \<rparr>)"
| take_call: "k < length (agents b) \<Longrightarrow> agents b ! k = None \<Longrightarrow>
    startCallChan (main b) ! k = c # rest \<Longrightarrow>
    bench_step marshal cp b
      (b\<lparr> main := (main b)\<lparr> startCallChan := (startCallChan (main b))[k := rest] \<rparr>,
         agents := (agents b)[k := Some c] \<rparr>)"
| report_call: "k < length (agents b) \<Longrightarrow> agents b ! k = Some (CallIndex cr) \<Longrightarrow>
    AccountIndex cr = int k \<Longrightarrow> CallResult cr \<in> {''Successful'', ''Failed'', ''''} \<Longrightarrow>
    length (callEndChan (main b)) < agents_of cp \<Longrightarrow>
    bench_step marshal cp b
      (b\<lparr> main := (main b)\<lparr> callEndChan := callEndChan (main b) @ [cr] \<rparr>,
         agents := (agents b)[k := None] \<rparr>)"
| signal: "bench_step marshal cp b (b\<lparr> main := (main b)\<lparr> mainCancelled := True \<rparr> \<rparr>)"

inductive_cases bench_stepE: "bench_step marshal cp b b'"

definition bench_start :: "call_profile \<Rightarrow> bench \<Rightarrow> bool" where
  "bench_start cp b =
     (\<exists>f. b = \<lparr> main = uac_init cp f, agents = replicate (agents_of cp) None, running = True \<rparr>)"

subsection \<open>Counting\<close>

definition busy :: "bool list \<Rightarrow> nat" where
  "busy bs = length (filter id bs)"

lemma busy_update:
  "k < length bs \<Longrightarrow> busy (bs[k := b]) + of_bool (bs ! k) = busy bs + of_bool b"
  unfolding busy_def
proof (induction bs arbitrary: k)
  case (Cons a bs)
  then show ?case by (cases k) auto
qed simp

lemma busy_replicate [simp]: "busy (replicate n False) = 0"
  by (simp add: busy_def)

lemma busy_le: "busy bs \<le> length bs"
  by (simp add: busy_def)

lemma busy_less: "busy bs < length bs \<Longrightarrow> \<exists>k < length bs. \<not> bs ! k"
proof (rule ccontr)
  assume "busy bs < length bs" and "\<not> (\<exists>k < length bs. \<not> bs ! k)"
  then have "filter id bs = bs" by (auto simp: filter_id_conv in_set_conv_nth)
  then show False using \<open>busy bs < length bs\<close> by (simp add: busy_def)
qed

text \<open>
  Where the call of agent \<open>k\<close> is: in its start channel, with the agent, or in a report on its way
  back (\<open>hand\<close> holds a report already received and not yet counted).
\<close>

definition reports_of :: "nat \<Rightarrow> call_report list \<Rightarrow> nat" where
  "reports_of k crs = length (filter (\<lambda>cr. AccountIndex cr = int k) crs)"

lemma reports_of_simps [simp]:
  "reports_of k [] = 0"
  "reports_of k (cr # crs) = of_bool (AccountIndex cr = int k) + reports_of k crs"
  "reports_of k (crs @ crs') = reports_of k crs + reports_of k crs'"
  by (simp_all add: reports_of_def)

definition load :: "int option list \<Rightarrow> call_report list \<Rightarrow> uac_state \<Rightarrow> nat \<Rightarrow> nat" where
  "load ag hand s k = length (startCallChan s ! k) + of_bool (ag ! k \<noteq> None) +
     reports_of k (hand @ callEndChan s)"

definition report_ok :: "nat \<Rightarrow> call_report \<Rightarrow> bool" where
  "report_ok n cr = (0 \<le> AccountIndex cr \<and> AccountIndex cr < int n \<and>
     CallResult cr \<in> {''Successful'', ''Failed'', ''''})"

subsection \<open>The invariant\<close>

definition shape_ok :: "nat \<Rightarrow> int option list \<Rightarrow> uac_state \<Rightarrow> bool" where
  "shape_ok n ag s = (length (inCall s) = n \<and> length (startCallChan s) = n \<and> length ag = n \<and>
     nextUac s < n)"

definition counts_ok :: "nat \<Rightarrow> uac_state \<Rightarrow> bool" where
  "counts_ok n s = (idleUac s = int n - int (busy (inCall s)) \<and>
     startedCalls s = completedCalls s + int (busy (inCall s)) \<and>
     completedCalls s = okCalls s + badCalls s + unknownCalls s \<and>
     0 \<le> completedCalls s)"

definition loads_ok :: "nat \<Rightarrow> int option list \<Rightarrow> call_report list \<Rightarrow> uac_state \<Rightarrow> bool" where
  "loads_ok n ag hand s = (list_all (report_ok n) (hand @ callEndChan s) \<and>
     (\<forall>k < n. load ag hand s k = of_bool (inCall s ! k)))"

definition log_ok :: "uac_state \<Rightarrow> bool" where
  "log_ok s = list_all (\<lambda>l. \<not> prefix ''What'' l) (mainLog s)"

definition uac_ok :: "nat \<Rightarrow> int option list \<Rightarrow> call_report list \<Rightarrow> uac_state \<Rightarrow> bool" where
  "uac_ok n ag hand s = (shape_ok n ag s \<and> counts_ok n s \<and> loads_ok n ag hand s \<and> log_ok s)"

lemmas uac_ok_defs = uac_ok_def shape_ok_def counts_ok_def loads_ok_def log_ok_def

lemma uac_ok_frame [simp]:
  "uac_ok n ag h (s\<lparr> batchPos := i \<rparr>) = uac_ok n ag h s"
  "uac_ok n ag h (s\<lparr> mainCancelled := c \<rparr>) = uac_ok n ag h s"
  by (simp_all add: uac_ok_defs load_def)

subsection \<open>The search for an idle agent\<close>

lemma find_idle_here: "\<not> bs ! (j mod n) \<Longrightarrow> n = length bs \<Longrightarrow> 0 < n \<Longrightarrow> find_idle bs n j = Some (Proceeds j)"
  by (subst find_idle.simps) (simp add: not_le)

lemma find_idle_steps:
  "\<not> bs ! ((j + d) mod n) \<Longrightarrow> (\<And>i. i < d \<Longrightarrow> bs ! ((j + i) mod n)) \<Longrightarrow> n = length bs \<Longrightarrow> 0 < n \<Longrightarrow>
     find_idle bs n j = Some (Proceeds (j + d))"
proof (induction d arbitrary: j)
  case 0
  then show ?case using find_idle_here by simp
next
  case (Suc d)
  have "bs ! ((Suc j + i) mod n)" if "i < d" for i using Suc.prems(2) [of "Suc i"] that by simp
  then have "find_idle bs n (Suc j) = Some (Proceeds (Suc j + d))" using Suc by simp
  moreover have "bs ! (j mod n)" using Suc.prems(2) [of 0] by simp
  ultimately show ?case using Suc.prems(3,4) by (subst find_idle.simps) (simp add: not_le)
qed

lemma residue_hit: "k < n \<Longrightarrow> \<exists>d < n. (j + d) mod n = (k :: nat)"
proof -
  assume k: "k < n"
  let ?d = "(k + (n - j mod n)) mod n"
  have "(j + ?d) mod n = (j mod n + (k + (n - j mod n))) mod n" by (metis mod_add_eq mod_mod_trivial)
  also have "j mod n + (k + (n - j mod n)) = k + n"
    using k mod_less_divisor [of n j] by linarith
  finally show ?thesis using k by (intro exI [of _ ?d]) simp
qed

lemma find_idle_finds:
  assumes "k < n" and "\<not> bs ! k" and "n = length bs"
  shows "\<exists>d < n. find_idle bs n j = Some (Proceeds (j + d)) \<and> \<not> bs ! ((j + d) mod n) \<and>
    (\<forall>i < d. bs ! ((j + i) mod n))"
proof -
  let ?P = "\<lambda>d. \<not> bs ! ((j + d) mod n)"
  obtain d where d: "d < n" "(j + d) mod n = k" using residue_hit assms(1) by blast
  have p: "?P (LEAST d. ?P d)" using LeastI [of ?P d] d assms(2) by simp
  have l: "(LEAST d. ?P d) < n" using Least_le [of ?P d] d assms(2) by simp
  have m: "bs ! ((j + i) mod n)" if "i < (LEAST d. ?P d)" for i using not_less_Least [OF that] by simp
  show ?thesis using p l m find_idle_steps [OF p m assms(3)] assms(1) by blast
qed

lemma find_idle_idle:
  assumes "find_idle bs n j = Some (Proceeds i)" and "0 < n"
  shows "\<not> bs ! (i mod n)"
proof -
  have "\<forall>i. Proceeds i' = Proceeds i \<longrightarrow> 0 < n \<longrightarrow> \<not> bs ! (i mod n)" if "find_idle bs n j = Some (Proceeds i')" for i'
    by (rule find_idle.raw_induct [where P = "\<lambda>bs n j p. \<forall>i. p = Proceeds i \<longrightarrow> 0 < n \<longrightarrow> \<not> bs ! (i mod n)", OF _ that])
      (auto split: if_splits)
  then show ?thesis using assms by simp
qed

subsection \<open>Receiving reports keeps the invariant\<close>

lemma write_details_frame [simp]:
  "completedCalls (write_details marshal cr s) = completedCalls s"
  "okCalls (write_details marshal cr s) = okCalls s"
  "badCalls (write_details marshal cr s) = badCalls s"
  "unknownCalls (write_details marshal cr s) = unknownCalls s"
  "mainCancelled (write_details marshal cr s) = mainCancelled s"
  "callEndChan (write_details marshal cr s) = callEndChan s"
  "main_state.more (write_details marshal cr s) = main_state.more s"
  by (simp_all add: write_details_def split: option.split)

lemma count_result_frame [simp]:
  "completedCalls (count_result res s) = completedCalls s"
  "mainCancelled (count_result res s) = mainCancelled s"
  "callEndChan (count_result res s) = callEndChan s"
  "cdf (count_result res s) = cdf s"
  "mainLog (count_result res s) = mainLog s"
  "main_state.more (count_result res s) = main_state.more s"
  by (simp_all add: count_result_def)

lemma write_details_uac [simp]:
  "inCall (write_details marshal cr s) = inCall s" "idleUac (write_details marshal cr s) = idleUac s"
  "startedCalls (write_details marshal cr s) = startedCalls s"
  "startCallChan (write_details marshal cr s) = startCallChan s"
  "batchPos (write_details marshal cr s) = batchPos s" "nextUac (write_details marshal cr s) = nextUac s"
  by (simp_all add: write_details_def split: option.split)

lemma count_result_uac [simp]:
  "inCall (count_result res s) = inCall s" "idleUac (count_result res s) = idleUac s"
  "startedCalls (count_result res s) = startedCalls s"
  "startCallChan (count_result res s) = startCallChan s"
  "batchPos (count_result res s) = batchPos s" "nextUac (count_result res s) = nextUac s"
  by (simp_all add: count_result_def)

lemma count_result_total:
  "res \<in> {''Successful'', ''Failed'', ''''} \<Longrightarrow>
     okCalls (count_result res s) + badCalls (count_result res s) + unknownCalls (count_result res s) =
     okCalls s + badCalls s + unknownCalls s + 1"
  by (auto simp: count_result_def)

lemma write_details_log:
  "list_all (\<lambda>l. \<not> prefix ''What'' l) (mainLog s) \<Longrightarrow>
     list_all (\<lambda>l. \<not> prefix ''What'' l) (mainLog (write_details marshal cr s))"
  by (simp add: write_details_def split: option.split sum.split)

lemma report_in_call:
  assumes "uac_ok n ag [cr] s"
  shows "0 \<le> AccountIndex cr \<and> AccountIndex cr < int n \<and> inCall s ! nat (AccountIndex cr)"
proof -
  let ?k = "nat (AccountIndex cr)"
  have r: "report_ok n cr" using assms by (simp add: uac_ok_defs)
  then have k: "?k < n" "AccountIndex cr = int ?k" by (auto simp: report_ok_def)
  have "load ag [cr] s ?k = of_bool (inCall s ! ?k)" using assms k(1) by (simp add: uac_ok_defs)
  moreover have "0 < load ag [cr] s ?k" using k(2) by (simp add: load_def)
  ultimately have "inCall s ! ?k" by (cases "inCall s ! ?k") simp_all
  then show ?thesis using r by (simp add: report_ok_def)
qed

definition same_calls :: "uac_state \<Rightarrow> uac_state \<Rightarrow> bool" where
  "same_calls s s' = (startedCalls s' = startedCalls s \<and> batchPos s' = batchPos s \<and>
     mainCancelled s' = mainCancelled s \<and> startCallChan s' = startCallChan s)"

lemma call_ended_ok:
  assumes "uac_ok n ag [cr] s"
  shows "\<exists>s'. uac_call_ended marshal cr s = Proceeds s' \<and> uac_ok n ag [] s' \<and> same_calls s s' \<and>
    callEndChan s' = callEndChan s \<and> completedCalls s' = completedCalls s + 1"
proof -
  let ?k = "nat (AccountIndex cr)"
  let ?s1 = "s\<lparr> completedCalls := completedCalls s + 1, inCall := (inCall s)[?k := False],
    idleUac := idleUac s + 1, idleUacZeroPrinted := False \<rparr>"
  let ?s' = "count_result (CallResult cr) (write_details marshal (cr\<lparr> AccountIndex := AccountIndex cr + 1 \<rparr>) ?s1)"
  have ok: "shape_ok n ag s" "counts_ok n s" "loads_ok n ag [cr] s" "log_ok s"
    using assms by (auto simp: uac_ok_def)
  have k: "0 \<le> AccountIndex cr" "AccountIndex cr < int n" "inCall s ! ?k"
    using report_in_call [OF assms] by auto
  have n: "?k < n" "length (inCall s) = n" using k ok(1) by (auto simp: shape_ok_def)
  have b: "busy ((inCall s)[?k := False]) + 1 = busy (inCall s)"
    using busy_update [of ?k "inCall s" False] n k(3) by simp
  have "uac_call_ended marshal cr s = Proceeds ?s'"
    using k n by (simp add: uac_call_ended_def Let_def)
  moreover have "shape_ok n ag ?s'" using ok(1) by (simp add: shape_ok_def)
  moreover have "counts_ok n ?s'"
  proof -
    have "CallResult cr \<in> {''Successful'', ''Failed'', ''''}" using ok(3) by (auto simp: loads_ok_def report_ok_def)
    note t = count_result_total [OF this]
    show ?thesis using ok(2) b by (simp add: counts_ok_def t)
  qed
  moreover have "loads_ok n ag [] ?s'"
  proof -
    have "load ag [] ?s' i = of_bool (inCall ?s' ! i)" if i: "i < n" for i
    proof -
      have l: "load ag [cr] s i = of_bool (inCall s ! i)" using ok(3) i by (simp add: loads_ok_def)
      show ?thesis
      proof (cases "i = ?k")
        case True
        then have "AccountIndex cr = int i" using k by simp
        then show ?thesis using l k(3) True n by (simp add: load_def)
      next
        case False
        then have "AccountIndex cr \<noteq> int i" using k by auto
        then show ?thesis using l False by (simp add: load_def)
      qed
    qed
    then show ?thesis using ok(3) by (simp add: loads_ok_def)
  qed
  moreover have "log_ok ?s'" using ok(4) write_details_log [of ?s1] by (simp add: log_ok_def)
  ultimately show ?thesis by (intro exI [of _ ?s']) (simp add: uac_ok_def same_calls_def)
qed

lemma take_report_ok:
  "uac_ok n ag [] s \<Longrightarrow> callEndChan s = cr # rest \<Longrightarrow> uac_ok n ag [cr] (s\<lparr> callEndChan := rest \<rparr>)"
  by (simp add: uac_ok_defs load_def)

lemma drain_ok:
  assumes "uac_ok n ag [cr] s" and "k \<le> length (callEndChan s)"
  shows "\<exists>s'. drain (uac_call_ended marshal) k cr s = Proceeds s' \<and> uac_ok n ag [] s' \<and> same_calls s s' \<and>
    callEndChan s' = drop k (callEndChan s) \<and> completedCalls s' = completedCalls s + 1 + int k"
  using assms
proof (induction k arbitrary: cr s)
  case 0
  then show ?case using call_ended_ok [OF 0(1)] by auto
next
  case (Suc k)
  obtain s1 where s1: "uac_call_ended marshal cr s = Proceeds s1" "uac_ok n ag [] s1" "same_calls s s1"
    "callEndChan s1 = callEndChan s" "completedCalls s1 = completedCalls s + 1"
    using call_ended_ok [OF Suc.prems(1)] by blast
  obtain cr1 rest where c: "callEndChan s = cr1 # rest" using Suc.prems(2) by (cases "callEndChan s") auto
  have "uac_ok n ag [cr1] (s1\<lparr> callEndChan := rest \<rparr>)" by (rule take_report_ok) (use s1 c in auto)
  from Suc.IH [OF this] Suc.prems(2) c obtain s' where
    "drain (uac_call_ended marshal) k cr1 (s1\<lparr> callEndChan := rest \<rparr>) = Proceeds s'" "uac_ok n ag [] s'"
    "same_calls s1 s'" "callEndChan s' = drop k rest" "completedCalls s' = completedCalls s1 + 1 + int k"
    by (auto simp: same_calls_def)
  then show ?case using s1 c by (auto simp: same_calls_def)
qed

lemma receive_reports_ok:
  assumes "uac_ok n ag [] s" and "callEndChan s \<noteq> []"
  shows "\<exists>s'. receive_reports (uac_call_ended marshal) s = Proceeds s' \<and> uac_ok n ag [] s' \<and>
    same_calls s s' \<and> callEndChan s' = [] \<and>
    completedCalls s' = completedCalls s + int (length (callEndChan s))"
proof -
  obtain cr rest where c: "callEndChan s = cr # rest" using assms(2) by (cases "callEndChan s") auto
  have "uac_ok n ag [cr] (s\<lparr> callEndChan := rest \<rparr>)" using take_report_ok assms(1) c by blast
  from drain_ok [OF this, of "length rest" marshal] c show ?thesis
    by (auto simp: receive_reports_def same_calls_def)
qed

subsection \<open>Starting a call keeps the invariant\<close>

lemma start_call_ok:
  assumes ok: "uac_ok n ag [] s" and n: "n = agents_of cp" and idle: "idleUac s \<noteq> 0"
  shows "\<exists>d < n. let k = (nextUac s + d) mod n in
    \<not> inCall s ! k \<and> (\<forall>i < d. inCall s ! ((nextUac s + i) mod n)) \<and> startCallChan s ! k = [] \<and>
    start_call cp s = Proceeds (s\<lparr> inCall := (inCall s)[k := True], idleUac := idleUac s - 1,
      startedCalls := startedCalls s + 1,
      startCallChan := (startCallChan s)[k := [startedCalls s + 1]],
      nextUac := (nextUac s + d + 1) mod n,
      sleptMs := sleptMs s + max 0 (BatchInterval cp sdiv CallsPerBatch cp) \<rparr>)"
proof -
  have len: "length (inCall s) = n" using ok by (simp add: uac_ok_defs)
  have "busy (inCall s) \<noteq> n" using ok idle by (simp add: uac_ok_defs)
  then have "busy (inCall s) < length (inCall s)" using busy_le [of "inCall s"] len by simp
  then obtain k0 where "k0 < n" "\<not> inCall s ! k0" using busy_less len by blast
  then obtain d where d: "d < n" "find_idle (inCall s) n (nextUac s) = Some (Proceeds (nextUac s + d))"
    "\<not> inCall s ! ((nextUac s + d) mod n)" "\<forall>i < d. inCall s ! ((nextUac s + i) mod n)"
    using find_idle_finds [of k0 n "inCall s" "nextUac s"] len by blast
  let ?k = "(nextUac s + d) mod n"
  have "load ag [] s ?k = of_bool (inCall s ! ?k)" using ok d(1) by (simp add: uac_ok_defs)
  then have free: "startCallChan s ! ?k = []" using d(3) by (simp add: load_def)
  show ?thesis using d free by (intro exI [of _ d]) (simp add: start_call_def n [symmetric] Let_def)
qed

lemma started_ok:
  assumes ok: "uac_ok n ag [] s" and k: "k < n" "\<not> inCall s ! k" and j: "j < n"
  shows "uac_ok n ag [] (s\<lparr> inCall := (inCall s)[k := True], idleUac := idleUac s - 1,
      startedCalls := startedCalls s + 1, startCallChan := (startCallChan s)[k := [c]],
      nextUac := j, sleptMs := ms \<rparr>)"
    (is "uac_ok n ag [] ?s'")
proof -
  have len: "length (inCall s) = n" "length (startCallChan s) = n" using ok by (simp_all add: uac_ok_defs)
  have b: "busy ((inCall s)[k := True]) = busy (inCall s) + 1"
    using busy_update [of k "inCall s" True] k len by simp
  have "load ag [] ?s' i = of_bool (inCall ?s' ! i)" if i: "i < n" for i
  proof -
    have l: "load ag [] s i = of_bool (inCall s ! i)" using ok i by (simp add: uac_ok_defs)
    show ?thesis
    proof (cases "i = k")
      case True
      then show ?thesis using l k len by (simp add: load_def)
    next
      case False
      then show ?thesis using l by (simp add: load_def)
    qed
  qed
  then show ?thesis using ok b j by (simp add: uac_ok_defs)
qed

definition limit_ok :: "call_profile \<Rightarrow> uac_state \<Rightarrow> bool" where
  "limit_ok cp s = (0 < TotalCalls cp \<longrightarrow> startedCalls s \<le> TotalCalls cp)"

lemma after_select_ok:
  assumes ok: "uac_ok n ag [] s" and n: "n = agents_of cp" and l: "limit_ok cp s"
  shows "\<exists>e s'. after_select cp s = Proceeds (e, s') \<and> uac_ok n ag [] s' \<and> limit_ok cp s' \<and>
    completedCalls s' = completedCalls s \<and> callEndChan s' = callEndChan s \<and>
    (e = Left \<longleftrightarrow> 0 < TotalCalls cp \<and> TotalCalls cp \<le> completedCalls s) \<and>
    mainCancelled s' = (mainCancelled s \<or> e = Left)"
proof -
  consider (finished) "0 < TotalCalls cp \<and> TotalCalls cp \<le> completedCalls s"
    | (all_started) "\<not> (0 < TotalCalls cp \<and> TotalCalls cp \<le> completedCalls s)"
        "0 < TotalCalls cp \<and> TotalCalls cp \<le> startedCalls s"
    | (all_busy) "\<not> (0 < TotalCalls cp \<and> TotalCalls cp \<le> completedCalls s)"
        "\<not> (0 < TotalCalls cp \<and> TotalCalls cp \<le> startedCalls s)" "idleUac s = 0"
    | (starts) "\<not> (0 < TotalCalls cp \<and> TotalCalls cp \<le> completedCalls s)"
        "\<not> (0 < TotalCalls cp \<and> TotalCalls cp \<le> startedCalls s)" "idleUac s \<noteq> 0"
    by blast
  then show ?thesis
  proof cases
    case starts
    from start_call_ok [OF ok n starts(3)] obtain d where d: "d < n"
      "\<not> inCall s ! ((nextUac s + d) mod n)"
      and st: "start_call cp s = Proceeds (s\<lparr> inCall := (inCall s)[(nextUac s + d) mod n := True],
        idleUac := idleUac s - 1, startedCalls := startedCalls s + 1,
        startCallChan := (startCallChan s)[(nextUac s + d) mod n := [startedCalls s + 1]],
        nextUac := (nextUac s + d + 1) mod n,
        sleptMs := sleptMs s + max 0 (BatchInterval cp sdiv CallsPerBatch cp) \<rparr>)" (is "_ = Proceeds ?s1")
      by (auto simp: Let_def)
    have "uac_ok n ag [] ?s1" by (rule started_ok) (use ok d in auto)
    then have "uac_ok n ag [] (?s1\<lparr> batchPos := batchPos ?s1 + 1 \<rparr>)" by (simp only: uac_ok_frame)
    moreover have "limit_ok cp (?s1\<lparr> batchPos := batchPos ?s1 + 1 \<rparr>)"
      using starts(2) by (auto simp: limit_ok_def)
    moreover have "after_select cp s = Proceeds (Again, ?s1\<lparr> batchPos := batchPos ?s1 + 1 \<rparr>)"
      by (simp only: after_select_def starts st if_False if_True simp_thms and_then.simps)
    ultimately show ?thesis using starts(1)
      by (intro exI [of _ Again] exI [of _ "?s1\<lparr> batchPos := batchPos ?s1 + 1 \<rparr>"]) simp
  qed (use ok l in \<open>auto simp: after_select_def uac_ok_defs load_def limit_ok_def\<close>)
qed

lemma uac_pass_ok:
  assumes ok: "uac_ok n ag [] s" and n: "n = agents_of cp" and l: "limit_ok cp s" and r: "ready c s"
  shows "\<exists>e s'. uac_pass marshal cp c s = Proceeds (e, s') \<and> uac_ok n ag [] s' \<and> limit_ok cp s' \<and>
    (e = Again \<longrightarrow> 0 < TotalCalls cp \<longrightarrow> completedCalls s < TotalCalls cp \<longrightarrow>
       completedCalls s' < TotalCalls cp) \<and>
    (e = Left \<longrightarrow> mainCancelled s')"
proof (cases "batchPos s < CallsPerBatch cp")
  case False
  then have "uac_pass marshal cp c s = Proceeds (Again, s\<lparr> batchPos := 0 \<rparr>)" by (simp add: uac_pass_def)
  moreover have "limit_ok cp (s\<lparr> batchPos := 0 \<rparr>)" using l by (simp add: limit_ok_def)
  ultimately show ?thesis using ok by simp
next
  case True
  have after: "\<exists>e s'. after_select cp s1 = Proceeds (e, s') \<and> uac_ok n ag [] s' \<and> limit_ok cp s' \<and>
      (e = Again \<longrightarrow> 0 < TotalCalls cp \<longrightarrow> completedCalls s' < TotalCalls cp) \<and> (e = Left \<longrightarrow> mainCancelled s')"
    if s1: "uac_ok n ag [] s1" "limit_ok cp s1" for s1
  proof -
    from after_select_ok [OF s1(1) n s1(2)] obtain e s' where
      "after_select cp s1 = Proceeds (e, s')" "uac_ok n ag [] s'" "limit_ok cp s'"
      "completedCalls s' = completedCalls s1" "mainCancelled s' = (mainCancelled s1 \<or> e = Left)"
      "e = Left \<longleftrightarrow> 0 < TotalCalls cp \<and> TotalCalls cp \<le> completedCalls s1" by blast
    then show ?thesis by (intro exI [of _ e] exI [of _ s']) auto
  qed
  show ?thesis
  proof (cases c)
    case Ctx_Done
    then show ?thesis using True ok l r by (simp add: uac_pass_def uac_body_def)
  next
    case Call_End
    then have "callEndChan s \<noteq> []" using r by simp
    from receive_reports_ok [OF ok this, of marshal] obtain s1 where s1:
      "receive_reports (uac_call_ended marshal) s = Proceeds s1" "uac_ok n ag [] s1" "same_calls s s1" by blast
    have "limit_ok cp s1" using l s1(3) by (simp add: limit_ok_def same_calls_def)
    from after [OF s1(2) this] show ?thesis
      using True Call_End s1(1) by (auto simp: uac_pass_def uac_body_def)
  next
    case Default_Case
    then show ?thesis using True after [OF ok l] by (auto simp: uac_pass_def uac_body_def)
  qed
qed

subsection \<open>The invariant of the system\<close>

definition bench_ok :: "call_profile \<Rightarrow> bench \<Rightarrow> bool" where
  "bench_ok cp b = (uac_ok (agents_of cp) (agents b) [] (main b) \<and> limit_ok cp (main b) \<and>
     (running b \<longrightarrow> 0 < TotalCalls cp \<longrightarrow> completedCalls (main b) < TotalCalls cp) \<and>
     (\<not> running b \<longrightarrow> mainCancelled (main b)))"

lemma uac_init_ok:
  assumes "1 \<le> MaxConcurrentCalls cp"
  shows "uac_ok (agents_of cp) (replicate (agents_of cp) None) [] (uac_init cp f)"
proof -
  have "0 < agents_of cp" "int (agents_of cp) = MaxConcurrentCalls cp" using assms by (auto simp: agents_of_def)
  then show ?thesis by (simp add: uac_init_def uac_ok_defs load_def)
qed

lemma bench_ok_start:
  assumes "valid_profile cp" and "bench_start cp b"
  shows "bench_ok cp b"
proof -
  obtain f where b: "b = \<lparr> main = uac_init cp f, agents = replicate (agents_of cp) None, running = True \<rparr>"
    using assms(2) by (auto simp: bench_start_def)
  have "1 \<le> MaxConcurrentCalls cp" using assms(1) by (simp add: valid_profile_def)
  moreover have "limit_ok cp (uac_init cp f)" "completedCalls (uac_init cp f) = 0"
    by (simp_all add: uac_init_def limit_ok_def)
  ultimately show ?thesis using uac_init_ok b by (simp add: bench_ok_def)
qed

lemma take_call_ok:
  assumes "uac_ok n ag [] s" and "k < length ag" and "ag ! k = None" and "startCallChan s ! k = c # rest"
  shows "uac_ok n (ag[k := Some c]) [] (s\<lparr> startCallChan := (startCallChan s)[k := rest] \<rparr>)"
    (is "uac_ok n ?ag [] ?s")
proof -
  have k: "k < n" "length (startCallChan s) = n" "length ag = n" using assms by (auto simp: uac_ok_defs)
  have "load ?ag [] ?s i = load ag [] s i" for i
    using assms(3,4) k by (cases "i = k") (simp_all add: load_def)
  then show ?thesis using assms(1) by (simp add: uac_ok_defs)
qed

lemma report_call_ok:
  assumes "uac_ok n ag [] s" and "k < length ag" and "ag ! k = Some c"
    and "AccountIndex cr = int k" and "CallResult cr \<in> {''Successful'', ''Failed'', ''''}"
  shows "uac_ok n (ag[k := None]) [] (s\<lparr> callEndChan := callEndChan s @ [cr] \<rparr>)"
    (is "uac_ok n ?ag [] ?s")
proof -
  have k: "k < n" "length ag = n" using assms by (auto simp: uac_ok_defs)
  have "load ?ag [] ?s i = load ag [] s i" for i
    using assms(3,4) k by (cases "i = k") (simp_all add: load_def)
  moreover have "report_ok n cr" using assms(4,5) k by (simp add: report_ok_def)
  ultimately show ?thesis using assms(1) by (simp add: uac_ok_defs)
qed

lemma bench_ok_step:
  assumes ok: "bench_ok cp b" and st: "bench_step marshal cp b b'"
  shows "bench_ok cp b'"
  using st
proof (cases rule: bench_step.cases)
  case (main_pass c e s)
  have "uac_ok (agents_of cp) (agents b) [] (main b)" "limit_ok cp (main b)"
    using ok by (simp_all add: bench_ok_def)
  from uac_pass_ok [OF this(1) refl this(2) main_pass(3), of marshal] show ?thesis
    using ok main_pass by (cases e) (auto simp: bench_ok_def)
next
  case (take_call k c rest)
  then show ?thesis using ok take_call_ok [OF _ take_call(2-4)] by (simp add: bench_ok_def limit_ok_def)
next
  case (report_call k cr)
  then show ?thesis using ok report_call_ok [OF _ report_call(2-5)] by (simp add: bench_ok_def limit_ok_def)
next
  case signal
  then show ?thesis using ok by (simp add: bench_ok_def limit_ok_def)
qed

interpretation bench: invariant_system
  "\<lambda>b. valid_profile cp \<and> bench_start cp b" "bench_step marshal cp" "bench_ok cp" for marshal cp
  by unfold_locales (auto intro: bench_ok_start bench_ok_step)

definition bench_reach ::
  "(call_report \<Rightarrow> (string, string) result) \<Rightarrow> call_profile \<Rightarrow> bench \<Rightarrow> bool" where
  "bench_reach marshal cp = reach (\<lambda>b. valid_profile cp \<and> bench_start cp b) (bench_step marshal cp)"

lemma bench_reach_ok: "bench_reach marshal cp b \<Longrightarrow> bench_ok cp b"
  unfolding bench_reach_def by (rule bench.invar_reach)

end
