(* ===== verification/Dispatch_Progress.thy ===== *)
theory Dispatch_Progress
  imports Dispatch_System
begin

text \<open>
  What the dispatcher promises: its loop never blocks, its counters add up, an agent is given one
  call at a time, the search for an idle agent goes round, a pass starts a call when it can and ends
  the loop when all are completed; and what it does not promise when a batch is configured to be empty.
\<close>

subsection \<open>A sample system\<close>

definition sample_bench :: bench where
  "sample_bench = \<lparr> main = uac_init sample_parsed None, agents = [None, None], running = True \<rparr>"

lemma sample_valid: "valid_profile sample_parsed"
  by (simp add: valid_profile_def sample_parsed_def sample_profile_def zero_profile_def known_transport_def)

lemma sample_agents: "agents_of sample_parsed = 2"
  by (simp add: agents_of_def sample_parsed_def)

lemma sample_fields: "TotalCalls sample_parsed = 2" "CallsPerBatch sample_parsed = 1" "MaxConcurrentCalls sample_parsed = 2"
  by (simp_all add: sample_parsed_def sample_profile_def)

lemma sample_bench_start: "bench_start sample_parsed sample_bench"
  by (auto simp: bench_start_def sample_bench_def sample_agents numeral_2_eq_2)

lemma sample_bench_reach: "bench_reach marshal sample_parsed sample_bench"
  unfolding bench_reach_def by (intro reach_init) (simp add: sample_valid sample_bench_start)

subsection \<open>The loop never blocks\<close>

text \<open>
  C7. The main loop never blocks and never indexes out of range: whatever the agents do and
  whichever ready case the \<^verbatim>\<open>select\<close> takes, one pass of the loop is completed. In particular the
  search for an idle agent ends, the start channel of the agent found is empty, the loop
  that drains the reports finds one each time, and the index of every report is that of an agent.
\<close>

theorem main_loop_never_blocks:
  assumes "bench_reach marshal cp b" and "ready c (main b)"
  shows "\<exists>e s. uac_pass marshal cp c (main b) = Proceeds (e, s)"
proof -
  have "uac_ok (agents_of cp) (agents b) [] (main b)" "limit_ok cp (main b)"
    using bench_reach_ok [OF assms(1)] by (simp_all add: bench_ok_def)
  from uac_pass_ok [OF this(1) refl this(2) assms(2)] show ?thesis by blast
qed

theorem main_loop_never_blocks_witness:
  "\<exists>e s. uac_pass (\<lambda>_. Inr ''{}'') sample_parsed Default_Case (main sample_bench) = Proceeds (e, s)"
  by (rule main_loop_never_blocks [OF sample_bench_reach])
    (simp add: sample_bench_def uac_init_def)

subsection \<open>Counters\<close>

lemma bench_counters:
  assumes "bench_reach marshal cp b"
  shows "startedCalls (main b) = completedCalls (main b) + int (busy (inCall (main b))) \<and>
    completedCalls (main b) = okCalls (main b) + badCalls (main b) + unknownCalls (main b) \<and>
    idleUac (main b) = MaxConcurrentCalls cp - int (busy (inCall (main b))) \<and>
    (TotalCalls cp \<le> 0 \<or> startedCalls (main b) \<le> TotalCalls cp) \<and>
    list_all (\<lambda>l. \<not> prefix ''What'' l) (mainLog (main b))"
proof -
  have "0 < MaxConcurrentCalls cp"
    using assms unfolding bench_reach_def by (induction rule: reach.induct) (auto simp: valid_profile_def)
  then show ?thesis using bench_reach_ok [OF assms]
    by (auto simp: bench_ok_def uac_ok_defs limit_ok_def agents_of_def)
qed

text \<open>
  C4. The counters of the summary add up at every moment: the calls started are those completed
  and those of the busy agents, the completed ones are the successful, failed and unknown ones,
  \<^verbatim>\<open>idleUac\<close> is the number of agents not in a call, a configured total is never exceeded, and no
  report is ever refused as coming from an agent that is not in a call.
\<close>

theorem counters_add_up:
  assumes "bench_reach marshal cp b"
  shows "startedCalls (main b) = completedCalls (main b) + int (busy (inCall (main b))) \<and>
    completedCalls (main b) = okCalls (main b) + badCalls (main b) + unknownCalls (main b) \<and>
    idleUac (main b) = MaxConcurrentCalls cp - int (busy (inCall (main b))) \<and>
    (TotalCalls cp \<le> 0 \<or> startedCalls (main b) \<le> TotalCalls cp) \<and>
    list_all (\<lambda>l. \<not> prefix ''What'' l) (mainLog (main b))"
  using assms by (rule bench_counters)

theorem counters_add_up_witness:
  "idleUac (main sample_bench) = 2 - int (busy (inCall (main sample_bench))) \<and>
   startedCalls (main sample_bench) \<le> 2"
  using counters_add_up [OF sample_bench_reach] by (simp add: sample_fields)

subsection \<open>One call at a time\<close>

lemma reports_sum:
  "list_all (report_ok n) crs \<Longrightarrow> length crs = (\<Sum>k < n. reports_of k crs)"
proof (induction crs)
  case (Cons cr crs)
  let ?k = "nat (AccountIndex cr)"
  have k: "?k < n" "\<And>i. AccountIndex cr = int i \<longleftrightarrow> i = ?k" using Cons.prems by (auto simp: report_ok_def)
  have "(\<Sum>i < n. reports_of i (cr # crs)) = (\<Sum>i < n. of_bool (i = ?k)) + (\<Sum>i < n. reports_of i crs)"
    by (simp add: sum.distrib k(2))
  moreover have "(\<Sum>i < n. of_bool (i = ?k)) = (1::nat)" using k(1) by (simp add: of_bool_def)
  ultimately show ?case using Cons by simp
qed simp

lemma uac_okD:
  assumes "uac_ok n ag [] s"
  shows "length (inCall s) = n" "length ag = n" "length (startCallChan s) = n"
    "list_all (report_ok n) (callEndChan s)"
    "\<And>k. k < n \<Longrightarrow> length (startCallChan s ! k) + of_bool (ag ! k \<noteq> None) + reports_of k (callEndChan s)
       = of_bool (inCall s ! k)"
  using assms by (auto simp: uac_ok_defs load_def)

lemma agent_alone:
  assumes "uac_ok n ag [] s" and "k < n" and "ag ! k \<noteq> None"
  shows "startCallChan s ! k = [] \<and> reports_of k (callEndChan s) = 0 \<and> inCall s ! k"
  using uac_okD(5) [OF assms(1,2)] assms(3) by (cases "inCall s ! k") auto

lemma sum_le_one_less:
  fixes f :: "nat \<Rightarrow> nat"
  assumes "\<And>i. i < n \<Longrightarrow> f i \<le> 1" and "k < n" and "f k = 0"
  shows "(\<Sum>i < n. f i) < n"
proof -
  have "(\<Sum>i < n. f i) < (\<Sum>i < n. 1)" by (rule sum_strict_mono_ex1) (use assms in auto)
  then show ?thesis by simp
qed

lemma agent_has_room:
  assumes "bench_reach marshal cp b" and "k < length (agents b)" and "agents b ! k = Some c"
  shows "startCallChan (main b) ! k = [] \<and> reports_of k (callEndChan (main b)) = 0 \<and>
    length (callEndChan (main b)) < agents_of cp"
proof -
  let ?s = "main b" and ?n = "agents_of cp"
  have ok: "uac_ok ?n (agents b) [] ?s" using bench_reach_ok [OF assms(1)] by (simp add: bench_ok_def)
  have k: "k < ?n" using assms(2) uac_okD(2) [OF ok] by simp
  have alone: "startCallChan ?s ! k = []" "reports_of k (callEndChan ?s) = 0"
    using agent_alone [OF ok k] assms(3) by auto
  have "reports_of i (callEndChan ?s) \<le> 1" if "i < ?n" for i
  proof -
    have "of_bool (inCall ?s ! i) \<le> (1::nat)" by simp
    then show ?thesis using uac_okD(5) [OF ok that] by linarith
  qed
  from sum_le_one_less [where f = "\<lambda>i. reports_of i (callEndChan ?s)" and k = k, OF this k alone(2)] show ?thesis
    using alone reports_sum [OF uac_okD(4) [OF ok]] by simp
qed

text \<open>
  C18. An agent is given one call at a time, and reporting never blocks it: while an agent has a
  call its start channel is empty, no report of its own is waiting, and the channel of the
  reports, whose capacity is the number of agents, has room.
\<close>

theorem one_call_at_a_time:
  assumes "bench_reach marshal cp b" and "k < length (agents b)" and "agents b ! k = Some c"
  shows "startCallChan (main b) ! k = [] \<and> reports_of k (callEndChan (main b)) = 0 \<and>
    length (callEndChan (main b)) < agents_of cp"
  using assms by (rule agent_has_room)

definition sample_started :: bench where
  "sample_started = sample_bench\<lparr> main := (main sample_bench)\<lparr> inCall := [True, False], idleUac := 1,
     startedCalls := 1, startCallChan := [[1], []], batchPos := 1, nextUac := 1 \<rparr> \<rparr>"

definition sample_taken :: bench where
  "sample_taken = sample_started\<lparr> main := (main sample_started)\<lparr> startCallChan := [[], []] \<rparr>,
     agents := [Some 1, None] \<rparr>"

lemma sample_pass:
  "uac_pass marshal sample_parsed Default_Case (main sample_bench) = Proceeds (Again, main sample_started)"
proof -
  have "find_idle [False, False] 2 0 = Some (Proceeds 0)" by (rule find_idle_here) simp_all
  moreover have "BatchInterval sample_parsed = 0"
    by (simp add: sample_parsed_def sample_profile_def zero_profile_def)
  ultimately show ?thesis
    unfolding uac_pass_def uac_body_def after_select_def start_call_def
    by (simp add: sample_bench_def sample_started_def uac_init_def sample_agents sample_fields
        numeral_2_eq_2 Let_def)
qed

lemma sample_started_reach: "bench_reach marshal sample_parsed sample_started"
proof -
  have "bench_step marshal sample_parsed sample_bench
      (sample_bench\<lparr> main := main sample_started, running := (Again = Again) \<rparr>)"
    by (rule bench_step.main_pass [where c = Default_Case, OF _ _ sample_pass])
      (simp_all add: sample_bench_def uac_init_def)
  moreover have "sample_bench\<lparr> main := main sample_started, running := (Again = Again) \<rparr> = sample_started"
    by (simp add: sample_started_def sample_bench_def)
  ultimately show ?thesis using sample_bench_reach [of marshal] reach_step unfolding bench_reach_def by metis
qed

lemma sample_taken_reach: "bench_reach marshal sample_parsed sample_taken"
proof -
  have "bench_step marshal sample_parsed sample_started (sample_started\<lparr>
      main := (main sample_started)\<lparr> startCallChan := (startCallChan (main sample_started))[0 := []] \<rparr>,
      agents := (agents sample_started)[0 := Some 1] \<rparr>)"
    by (rule bench_step.take_call) (simp_all add: sample_started_def sample_bench_def)
  moreover have "sample_started\<lparr>
      main := (main sample_started)\<lparr> startCallChan := (startCallChan (main sample_started))[0 := []] \<rparr>,
      agents := (agents sample_started)[0 := Some 1] \<rparr> = sample_taken"
    by (simp add: sample_taken_def sample_started_def sample_bench_def)
  ultimately show ?thesis
    using sample_started_reach [of marshal] reach_step unfolding bench_reach_def by metis
qed

theorem one_call_at_a_time_witness:
  "agents sample_taken ! 0 = Some 1 \<and> length (callEndChan (main sample_taken)) < 2"
proof -
  have "0 < length (agents sample_taken)" "agents sample_taken ! 0 = Some 1"
    by (simp_all add: sample_taken_def)
  with one_call_at_a_time [OF sample_taken_reach this] show ?thesis by (simp add: sample_agents)
qed

subsection \<open>Going round\<close>

lemma busy_all:
  assumes "busy bs = length bs" and "i < length bs"
  shows "bs ! i"
proof (rule ccontr)
  assume "\<not> bs ! i"
  then show False using busy_update [OF assms(2), of True] busy_le [of "bs[i := True]"] assms(1) by simp
qed

lemma start_call_idle:
  assumes ok: "uac_ok (agents_of cp) ag [] s" and st: "start_call cp s = Proceeds s'"
  shows "idleUac s \<noteq> 0"
proof
  let ?n = "agents_of cp"
  assume "idleUac s = 0"
  then have full: "busy (inCall s) = length (inCall s)" using ok by (simp add: uac_ok_defs)
  have n: "0 < ?n" using ok by (auto simp: uac_ok_defs)
  show False
  proof (cases "find_idle (inCall s) ?n (nextUac s)")
    case None
    then show ?thesis using st by (simp add: start_call_def)
  next
    case (Some p)
    then obtain j where "p = Proceeds j" using st by (cases p) (simp_all add: start_call_def)
    with Some find_idle_idle [of "inCall s" ?n "nextUac s" j] n have "\<not> inCall s ! (j mod ?n)" by simp
    moreover have "j mod ?n < length (inCall s)" using n uac_okD(1) [OF ok] by simp
    ultimately show ?thesis using busy_all full by blast
  qed
qed

text \<open>
  C30. The next call goes to the first idle agent at or after the position the last one left, going
  round the agents, and it is that agent's start channel that receives the number of the call;
  the next search begins after it.
\<close>

theorem next_idle_agent:
  assumes "bench_reach marshal cp b" and "start_call cp (main b) = Proceeds s"
  shows "\<exists>d < agents_of cp. let k = (nextUac (main b) + d) mod agents_of cp in
    \<not> inCall (main b) ! k \<and> (\<forall>i < d. inCall (main b) ! ((nextUac (main b) + i) mod agents_of cp)) \<and>
    inCall s = (inCall (main b))[k := True] \<and>
    startCallChan s = (startCallChan (main b))[k := [startedCalls (main b) + 1]] \<and>
    startedCalls s = startedCalls (main b) + 1 \<and> nextUac s = (k + 1) mod agents_of cp"
proof -
  let ?s = "main b" and ?n = "agents_of cp"
  have ok: "uac_ok ?n (agents b) [] ?s" using bench_reach_ok [OF assms(1)] by (simp add: bench_ok_def)
  from start_call_ok [OF ok refl start_call_idle [OF ok assms(2)]] obtain d where d: "d < ?n"
    "\<not> inCall ?s ! ((nextUac ?s + d) mod ?n)" "\<forall>i < d. inCall ?s ! ((nextUac ?s + i) mod ?n)"
    "start_call cp ?s = Proceeds (?s\<lparr> inCall := (inCall ?s)[(nextUac ?s + d) mod ?n := True],
      idleUac := idleUac ?s - 1, startedCalls := startedCalls ?s + 1,
      startCallChan := (startCallChan ?s)[(nextUac ?s + d) mod ?n := [startedCalls ?s + 1]],
      nextUac := (nextUac ?s + d + 1) mod ?n,
      sleptMs := sleptMs ?s + max 0 (BatchInterval cp sdiv CallsPerBatch cp) \<rparr>)"
    by (auto simp: Let_def)
  have "(nextUac ?s + d + 1) mod ?n = ((nextUac ?s + d) mod ?n + 1) mod ?n" by (simp add: mod_simps)
  then show ?thesis using d assms(2) by (intro exI [of _ d]) (auto simp: Let_def)
qed

lemma sample_start_call:
  "\<exists>s. start_call sample_parsed (main sample_bench) = Proceeds s"
proof -
  have "find_idle [False, False] 2 0 = Some (Proceeds 0)" by (rule find_idle_here) simp_all
  then show ?thesis
    by (simp add: start_call_def sample_bench_def uac_init_def sample_agents numeral_2_eq_2 Let_def)
qed

theorem next_idle_agent_witness:
  "\<exists>s. start_call sample_parsed (main sample_bench) = Proceeds s \<and> startedCalls s = 1"
proof -
  obtain s where "start_call sample_parsed (main sample_bench) = Proceeds s" using sample_start_call by blast
  with next_idle_agent [OF sample_bench_reach this] show ?thesis
    by (auto simp: Let_def sample_bench_def uac_init_def)
qed

subsection \<open>What a pass achieves\<close>

lemma after_select_starts:
  assumes "uac_ok n ag [] s" and "n = agents_of cp" and "limit_ok cp s" and "after_select cp s = Proceeds (e, s')"
  shows "startedCalls s' =
    startedCalls s + of_bool ((TotalCalls cp \<le> 0 \<or> startedCalls s < TotalCalls cp) \<and> 0 < idleUac s)"
proof -
  have c: "completedCalls s \<le> startedCalls s" "0 \<le> idleUac s"
    using assms(1) busy_le [of "inCall s"] by (auto simp: uac_ok_defs)
  show ?thesis
  proof (cases "(TotalCalls cp \<le> 0 \<or> startedCalls s < TotalCalls cp) \<and> 0 < idleUac s")
    case True
    then have "idleUac s \<noteq> 0" by simp
    from start_call_ok [OF assms(1,2) this] obtain s1 where
      "start_call cp s = Proceeds s1" "startedCalls s1 = startedCalls s + 1" by (auto simp: Let_def)
    then show ?thesis using True c assms(4) by (auto simp: after_select_def split: if_splits)
  next
    case False
    then show ?thesis using c assms(4) by (auto simp: after_select_def split: if_splits)
  qed
qed

text \<open>
  C8. What a pass of the calling loop achieves when it reaches its \<^verbatim>\<open>select\<close> and is not cancelled: it
  receives every report that waits and counts each as a completed call; it then starts one call
  exactly when calls are left to start and an agent is idle, those of the reports just
  received included; and it ends the loop exactly when all calls are completed: then exactly the
  configured number was started, and no agent is in a call.
\<close>

theorem pass_starts_and_counts:
  assumes "bench_reach marshal cp b" and "batchPos (main b) < CallsPerBatch cp"
    and "ready c (main b)" and "c \<noteq> Ctx_Done"
  shows "\<exists>e s'. uac_pass marshal cp c (main b) = Proceeds (e, s') \<and> callEndChan s' = [] \<and>
    completedCalls s' = completedCalls (main b) + int (length (callEndChan (main b))) \<and>
    startedCalls s' = startedCalls (main b) +
      of_bool ((TotalCalls cp \<le> 0 \<or> startedCalls (main b) < TotalCalls cp) \<and>
        0 < idleUac (main b) + int (length (callEndChan (main b)))) \<and>
    (e = Left \<longleftrightarrow> 0 < TotalCalls cp \<and> completedCalls s' = TotalCalls cp) \<and>
    (e = Left \<longrightarrow> startedCalls s' = TotalCalls cp \<and> busy (inCall s') = 0)"
proof -
  let ?n = "agents_of cp" and ?s = "main b"
  have ok: "uac_ok ?n (agents b) [] ?s" "limit_ok cp ?s"
    using bench_reach_ok [OF assms(1)] by (simp_all add: bench_ok_def)
  obtain s1 where s1: "uac_pass marshal cp c ?s = after_select cp s1" "uac_ok ?n (agents b) [] s1" "same_calls ?s s1"
    "callEndChan s1 = []" "completedCalls s1 = completedCalls ?s + int (length (callEndChan ?s))"
  proof (cases c)
    case Call_End
    then show ?thesis using receive_reports_ok [OF ok(1), of marshal] assms(2,3) that
      by (auto simp: uac_pass_def uac_body_def)
  next
    case Default_Case
    then show ?thesis using that [of ?s] assms(2,3) ok(1) by (simp add: uac_pass_def uac_body_def same_calls_def)
  qed (use assms(4) in simp)
  have l: "limit_ok cp s1" "startedCalls s1 = startedCalls ?s"
    using ok(2) s1(3) by (simp_all add: limit_ok_def same_calls_def)
  have idle: "idleUac s1 = idleUac ?s + int (length (callEndChan ?s))"
    using ok(1) s1(2,5) l(2) by (auto simp: uac_ok_defs)
  from after_select_ok [OF s1(2) refl l(1)] obtain e s' where s': "after_select cp s1 = Proceeds (e, s')"
    "uac_ok ?n (agents b) [] s'" "limit_ok cp s'" "completedCalls s' = completedCalls s1"
    "callEndChan s' = callEndChan s1" "e = Left \<longleftrightarrow> 0 < TotalCalls cp \<and> TotalCalls cp \<le> completedCalls s1" by blast
  note st = after_select_starts [OF s1(2) refl l(1) s'(1)]
  have c: "startedCalls s' = completedCalls s' + int (busy (inCall s'))" using s'(2) by (simp add: uac_ok_defs)
  show ?thesis
    using s1(1,4,5) s'(1,3-6) st c l(2) idle by (intro exI [of _ e] exI [of _ s']) (auto simp: limit_ok_def)
qed

theorem pass_starts_and_counts_witness:
  "\<exists>e s'. uac_pass (\<lambda>_. Inr ''{}'') sample_parsed Default_Case (main sample_bench) = Proceeds (e, s') \<and>
    startedCalls s' = 1 \<and> completedCalls s' = 0"
proof -
  have "batchPos (main sample_bench) < CallsPerBatch sample_parsed" "ready Default_Case (main sample_bench)"
    "startedCalls (main sample_bench) = 0" "idleUac (main sample_bench) = 2" "completedCalls (main sample_bench) = 0"
    "callEndChan (main sample_bench) = []"
    by (simp_all add: sample_bench_def uac_init_def sample_fields)
  with pass_starts_and_counts [OF sample_bench_reach, of Default_Case "\<lambda>_. Inr ''{}''"] show ?thesis
    by (auto simp: sample_fields)
qed

subsection \<open>An empty batch\<close>

text \<open>
  C40. A profile without a positive \<^verbatim>\<open>CallsPerBatch\<close> (the zero value, which nothing refuses) makes
  the loop spin: no call is ever started, and the loop does not notice that it was cancelled.
\<close>

theorem empty_batch_spins:
  assumes "bench_reach marshal cp b" and "CallsPerBatch cp \<le> 0"
  shows "running b \<and> startedCalls (main b) = 0 \<and> callEndChan (main b) = [] \<and>
    uac_pass marshal cp c (main b) = Proceeds (Again, main b)"
proof -
  let ?I = "\<lambda>b. running b \<and> startedCalls (main b) = 0 \<and> callEndChan (main b) = [] \<and> batchPos (main b) = 0 \<and>
    list_all (\<lambda>q. q = []) (startCallChan (main b)) \<and> list_all (\<lambda>a. a = None) (agents b)"
  have "?I b" using assms(1) unfolding bench_reach_def
  proof (induction rule: reach.induct)
    case (reach_init b)
    then show ?case by (auto simp: bench_start_def uac_init_def list_all_length)
  next
    case (reach_step b b')
    have ok: "bench_ok cp b" using bench_reach_ok reach_step(1) by (simp add: bench_reach_def)
    have u: "uac_ok (agents_of cp) (agents b) [] (main b)" using ok by (simp add: bench_ok_def)
    from reach_step(2) show ?case
    proof (cases rule: bench_step.cases)
      case (main_pass c e s)
      then show ?thesis using reach_step.IH assms(2) by (auto simp: uac_pass_def)
    next
      case (take_call k c rest)
      then have "k < length (startCallChan (main b))" using uac_okD(2,3) [OF u] by simp
      then have "startCallChan (main b) ! k = []" using reach_step.IH by (simp add: list_all_length)
      then show ?thesis using take_call by simp
    next
      case (report_call k cr)
      then have "agents b ! k = None" using reach_step.IH by (simp add: list_all_length)
      then show ?thesis using report_call by simp
    next
      case signal
      then show ?thesis using reach_step.IH by simp
    qed
  qed
  then show ?thesis using assms(2) by (simp add: uac_pass_def)
qed

definition empty_batch_profile :: call_profile where
  "empty_batch_profile = sample_parsed\<lparr> CallsPerBatch := 0 \<rparr>"

definition cancelled_bench :: bench where
  "cancelled_bench = sample_bench\<lparr> main := (main sample_bench)\<lparr> mainCancelled := True \<rparr> \<rparr>"

theorem empty_batch_spins_witness:
  "mainCancelled (main cancelled_bench) \<and>
   uac_pass (\<lambda>_. Inr ''{}'') empty_batch_profile Ctx_Done (main cancelled_bench) =
     Proceeds (Again, main cancelled_bench)"
proof -
  let ?cp = empty_batch_profile
  have "valid_profile ?cp" using sample_valid by (simp add: empty_batch_profile_def valid_profile_def)
  moreover have "bench_start ?cp sample_bench"
    by (auto simp: bench_start_def sample_bench_def uac_init_def agents_of_def empty_batch_profile_def
        sample_fields numeral_2_eq_2)
  ultimately have "bench_reach (\<lambda>_. Inr ''{}'') ?cp sample_bench"
    unfolding bench_reach_def by (intro reach_init) simp
  then have "bench_reach (\<lambda>_. Inr ''{}'') ?cp cancelled_bench"
    using bench_step.signal [of _ ?cp sample_bench] reach_step
    unfolding bench_reach_def cancelled_bench_def by metis
  from empty_batch_spins [OF this] show ?thesis by (simp add: empty_batch_profile_def cancelled_bench_def)
qed

subsection \<open>The answering side counts every report\<close>

definition numbered :: "call_report \<Rightarrow> call_report" where
  "numbered cr = cr\<lparr> AccountIndex := AccountIndex cr + 1 \<rparr>"

definition with_result :: "string \<Rightarrow> call_report list \<Rightarrow> int" where
  "with_result r crs = int (length (filter (\<lambda>cr. CallResult cr = r) crs))"

lemma with_result_simps [simp]:
  "with_result r [] = 0"
  "with_result r (cr # crs) = of_bool (CallResult cr = r) + with_result r crs"
  by (simp_all add: with_result_def)

text \<open>The reports \<open>crs\<close> have been counted in \<open>s'\<close>, beside what \<open>s\<close> had.\<close>

definition counted ::
  "(call_report \<Rightarrow> (string, string) result) \<Rightarrow> call_report list \<Rightarrow> main_state \<Rightarrow> main_state \<Rightarrow> bool" where
  "counted marshal crs s s' =
     (completedCalls s' = completedCalls s + int (length crs) \<and>
      okCalls s' = okCalls s + with_result ''Successful'' crs \<and>
      badCalls s' = badCalls s + with_result ''Failed'' crs \<and>
      unknownCalls s' = unknownCalls s + with_result '''' crs \<and>
      cdf s' = map_option (fold (write_report marshal) (map numbered crs)) (cdf s))"

lemma count_result_effect:
  "okCalls (count_result r s) = okCalls s + of_bool (r = ''Successful'')"
  "badCalls (count_result r s) = badCalls s + of_bool (r = ''Failed'')"
  "unknownCalls (count_result r s) = unknownCalls s + of_bool (r = [])"
  by (simp_all add: count_result_def)

lemma write_details_effect:
  "cdf (write_details marshal cr s) = map_option (write_report marshal cr) (cdf s)"
  by (simp add: write_details_def split: option.split)

lemma uas_call_ended_counts:
  "\<exists>s'. uas_call_ended marshal cr s = Proceeds s' \<and> counted marshal [cr] s s' \<and>
     callEndChan s' = callEndChan s \<and> mainCancelled s' = mainCancelled s"
  by (simp add: uas_call_ended_def counted_def numbered_def count_result_effect write_details_effect Let_def)

lemma uas_drain_counts:
  "k = length (callEndChan s) \<Longrightarrow>
     \<exists>s'. drain (uas_call_ended marshal) k cr s = Proceeds s' \<and>
       counted marshal (cr # callEndChan s) s s' \<and> callEndChan s' = [] \<and> mainCancelled s' = mainCancelled s"
proof (induction k arbitrary: cr s)
  case 0
  then show ?case using uas_call_ended_counts [of marshal cr s] by simp
next
  case (Suc k)
  then obtain cr1 rest where c: "callEndChan s = cr1 # rest" by (cases "callEndChan s") auto
  from uas_call_ended_counts [of marshal cr s] obtain s1 where s1:
    "uas_call_ended marshal cr s = Proceeds s1" "counted marshal [cr] s s1" "callEndChan s1 = callEndChan s"
    "mainCancelled s1 = mainCancelled s" by blast
  have "k = length (callEndChan (s1\<lparr> callEndChan := rest \<rparr>))" using Suc.prems c by simp
  from Suc.IH [OF this, of cr1] obtain s' where s':
    "drain (uas_call_ended marshal) k cr1 (s1\<lparr> callEndChan := rest \<rparr>) = Proceeds s'"
    "counted marshal (cr1 # rest) (s1\<lparr> callEndChan := rest \<rparr>) s'" "callEndChan s' = []"
    "mainCancelled s' = mainCancelled s1" by auto
  have "counted marshal (cr # cr1 # rest) s s'"
    using s1(2) s'(2) by (simp add: counted_def option.map_comp comp_def)
  then show ?case using s1 s' c by simp
qed

text \<open>
  C31. A pass of the answering side that receives a report receives all that wait: each is counted
  once, under its result, and written to the details file in order with its account numbered
  from one; the loop ends exactly when the configured total is reached.
\<close>

theorem uas_counts_every_report:
  assumes "callEndChan s \<noteq> []"
  shows "\<exists>e s'. uas_pass marshal cp Call_End s = Proceeds (e, s') \<and> callEndChan s' = [] \<and>
    completedCalls s' = completedCalls s + int (length (callEndChan s)) \<and>
    okCalls s' = okCalls s + with_result ''Successful'' (callEndChan s) \<and>
    badCalls s' = badCalls s + with_result ''Failed'' (callEndChan s) \<and>
    unknownCalls s' = unknownCalls s + with_result '''' (callEndChan s) \<and>
    cdf s' = map_option (fold (write_report marshal) (map numbered (callEndChan s))) (cdf s) \<and>
    (e = Left \<longleftrightarrow> 0 < TotalCalls cp \<and> TotalCalls cp \<le> completedCalls s')"
proof -
  obtain cr rest where c: "callEndChan s = cr # rest" using assms by (cases "callEndChan s") auto
  from uas_drain_counts [of "length rest" "s\<lparr> callEndChan := rest \<rparr>" marshal cr] obtain s' where s':
    "drain (uas_call_ended marshal) (length rest) cr (s\<lparr> callEndChan := rest \<rparr>) = Proceeds s'"
    "counted marshal (cr # rest) (s\<lparr> callEndChan := rest \<rparr>) s'" "callEndChan s' = []" by auto
  then show ?thesis
    by (cases "0 < TotalCalls cp \<and> TotalCalls cp \<le> completedCalls s'")
      (auto simp: uas_pass_def receive_reports_def c counted_def)
qed

definition sample_report :: "string \<Rightarrow> call_report" where
  "sample_report r = \<lparr> CallIndex = 1, Account = ''100'', AccountIndex = 0, RemoteAccount = ''200'',
     CallStartTime = 0, CallEndTime = 0, CallID = ''a'', CallResult = r, Logs = [] \<rparr>"

theorem uas_counts_every_report_witness:
  "\<exists>e s'. uas_pass (\<lambda>_. Inr ''{}'') sample_parsed Call_End
      ((uas_init None)\<lparr> callEndChan := [sample_report ''Successful'', sample_report ''''] \<rparr>) = Proceeds (e, s') \<and>
    okCalls s' = 1 \<and> unknownCalls s' = 1 \<and> e = Left"
proof -
  let ?s = "(uas_init None)\<lparr> callEndChan := [sample_report ''Successful'', sample_report ''''] \<rparr>"
  have "callEndChan ?s \<noteq> []" by simp
  from uas_counts_every_report [OF this, of "\<lambda>_. Inr ''{}''" sample_parsed] obtain e s' where
    "uas_pass (\<lambda>_. Inr ''{}'') sample_parsed Call_End ?s = Proceeds (e, s')"
    "completedCalls s' = 2" "okCalls s' = 1" "unknownCalls s' = 1"
    "e = Left \<longleftrightarrow> 0 < TotalCalls sample_parsed \<and> TotalCalls sample_parsed \<le> completedCalls s'"
    by (auto simp: uas_init_def sample_report_def sample_fields)
  then show ?thesis by (intro exI [of _ e] exI [of _ s']) (simp add: sample_fields)
qed

end
