(* ===== verification/Ua.thy ===== *)
theory Ua
  imports Dispatch_System
begin

text \<open>
  The user agent of \<^verbatim>\<open>src/sip/ua.go\<close>: the account it takes from the profile, the callback of the
  SIP stack (\<open>invite_state\<close>), and the cases of its \<^verbatim>\<open>select\<close>, one function each. A channel is the
  list of the messages in it. Two cases wait for the media function in the middle of their
  work; they are split at that receive, and \<open>pc\<close> says which of them waits. The two goroutines a case
  may start (the media function, the delayed report of a caller) and the sends of a callback that
  find their channel full are steps of their own.
\<close>

subsection \<open>The account of a user agent\<close>

record ua_account =
  listenAddress :: string
  accountUri :: string
  authUser :: string
  authPassword :: string
  recipientUri :: string

definition slot :: "string list \<Rightarrow> nat \<Rightarrow> string outcome" where
  "slot xs k = (if k < length xs then Returns (xs ! k) else Panics)"

fun and_with :: "'a outcome \<Rightarrow> ('a \<Rightarrow> 'b outcome) \<Rightarrow> 'b outcome" where
  "and_with (Returns a) f = f a"
| "and_with Panics f = Panics"

definition account_of :: "call_profile \<Rightarrow> nat \<Rightarrow> string \<Rightarrow> ua_account outcome" where
  "account_of cp k address =
     and_with (slot (InternalAccounts cp) k) (\<lambda>user.
     and_with (slot (InternalPasswords cp) k) (\<lambda>password.
       Returns
        \<lparr> listenAddress = address,
          accountUri = ''sip:'' @ user @ ''@'' @ ServerIP cp @ '';transport='' @ Transport cp,
          authUser = user, authPassword = password,
          recipientUri = ''sip:'' @ ServerIP cp @ '':'' @ ServerPort cp @ '';transport='' @ Transport cp \<rparr>))"

definition first_report :: "call_profile \<Rightarrow> nat \<Rightarrow> call_report outcome" where
  "first_report cp k =
     and_with (slot (InternalAccounts cp) k) (\<lambda>user.
     and_with (if Role cp = ''uac'' then slot (InternalCalledParties cp) k else Returns []) (\<lambda>called.
       Returns \<lparr> CallIndex = 0, Account = user, AccountIndex = int k, RemoteAccount = called,
         CallStartTime = 0, CallEndTime = 0, CallID = [], CallResult = [], Logs = [] \<rparr>))"

definition called_uri :: "call_profile \<Rightarrow> nat \<Rightarrow> string outcome" where
  "called_uri cp k =
     (if Role cp = ''uac'' then
        and_with (slot (InternalCalledParties cp) k) (\<lambda>called. Returns (''sip:'' @ called @ ''@'' @ ServerIP cp))
      else Returns [])"

text \<open>
  The start of a user agent. \<open>listen\<close> tells whether the stack can listen on an address, and
  \<open>register\<close> the status the registration has after three seconds.
\<close>

datatype ua_boot = Listen_Failed | Register_Failed | Ready ua_account string call_report

definition ua_setup :: "(string \<Rightarrow> bool) \<Rightarrow> (ua_account \<Rightarrow> int) \<Rightarrow> call_profile \<Rightarrow> nat \<Rightarrow> ua_boot outcome" where
  "ua_setup listen register cp k =
     and_with (slot (InternalLocalPorts cp) k) (\<lambda>port.
     let address = LocalIP cp @ '':'' @ port
     in if \<not> listen address then Returns Listen_Failed
        else and_with (account_of cp k address) (\<lambda>acc.
          if register acc \<noteq> 200 then Returns Register_Failed
          else and_with (first_report cp k) (\<lambda>r.
               and_with (called_uri cp k) (\<lambda>called. Returns (Ready acc called r)))))"

subsection \<open>State\<close>

record sip_session =
  sid :: nat
  callId :: string
  caller :: string

type_synonym session_description = "string \<times> string"

datatype stop_reason = Main_Done | Call_Over
datatype ua_pc = At_Select | Await_Media stop_reason | Exited
datatype sip_action =
  Do_Invite string | Do_Answer sip_session string | Do_Accept sip_session | Do_End sip_session | Do_Unregister
datatype sip_send =
  Send_Sdp session_description | Send_Received sip_session | Send_Confirmed sip_session | Send_Terminated sip_session
datatype reporter = Reporter_New | Reporter_Slept

record ua_state =
  pc :: ua_pc
  currentSession :: "sip_session option"
  mediaCtx :: bool
  mediaCancel :: bool
  mediaCancelled :: bool
  mediaRecord :: bool
  callDurationCtx :: bool
  callDurationCancel :: bool
  hangupByMe :: bool
  cr :: call_report
  uaLog :: "string list"
  sdpToMediaChan :: "session_description list"
  sdpFromMediaChan :: "session_description list"
  callConfirmedChan :: "sip_session list"
  callReceivedChan :: "sip_session list"
  callTerminatedChan :: "sip_session list"
  logChan :: "string list"
  mediaFuncEndChan :: nat
  uasCallIndex :: int
  sipSends :: "sip_send list list"
  actions :: "sip_action list"
  mediaStarts :: nat
  mediaErrors :: "string list"
  reporters :: "reporter list"
  reported :: "call_report list"

definition ua_init :: "call_report \<Rightarrow> ua_state" where
  "ua_init r =
     \<lparr> pc = At_Select, currentSession = None, mediaCtx = False, mediaCancel = False,
       mediaCancelled = False, mediaRecord = False, callDurationCtx = False, callDurationCancel = False, hangupByMe = False, cr = r, uaLog = [],
       sdpToMediaChan = [], sdpFromMediaChan = [], callConfirmedChan = [], callReceivedChan = [],
       callTerminatedChan = [], logChan = [], mediaFuncEndChan = 0, uasCallIndex = 0, sipSends = [],
       actions = [], mediaStarts = 0, mediaErrors = [], reporters = [], reported = [] \<rparr>"

text \<open>What the handlers take from outside: the profile, the clock and how a time is printed.\<close>

record ua_env =
  profile :: call_profile
  now :: int
  printTime :: "int \<Rightarrow> string"

definition lh_log :: "ua_env \<Rightarrow> string \<Rightarrow> ua_state \<Rightarrow> ua_state" where
  "lh_log env msg s =
     (let (c, out) = log_line (profile env) (printTime env) (now env) msg (cr s, uaLog s)
      in s\<lparr> cr := c, uaLog := out \<rparr>)"

definition is_uac :: "ua_env \<Rightarrow> bool" where
  "is_uac env = (Role (profile env) = ''uac'')"

definition is_uas :: "ua_env \<Rightarrow> bool" where
  "is_uas env = (Role (profile env) = ''uas'')"

subsection \<open>The callback of the SIP stack\<close>

text \<open>
  What \<^verbatim>\<open>InviteStateHandler\<close> does for a state: its sends become a thread of their own, performed
  in order as the channels have room.
\<close>

definition invite_state ::
  "ua_env \<Rightarrow> sip_session \<Rightarrow> string \<Rightarrow> string \<Rightarrow> ua_state \<Rightarrow> ua_state" where
  "invite_state env sess body st s =
     (let warn = (if sdpToMediaChan s \<noteq> []
          then lh_log env (''ua: sdpToMediaChan is not empty '' @
            show_int (int (length (sdpToMediaChan s))) @ ''? ua will block'') s
          else s)
      in
        if st = ''InviteReceived'' then
          if is_uas env then
            warn\<lparr> sipSends := sipSends s @ [[Send_Sdp (''offer'', body), Send_Received sess]] \<rparr>
          else s\<lparr> actions := actions s @ [Do_End sess] \<rparr>
        else if st = ''Confirmed'' then
          if is_uac env then
            warn\<lparr> sipSends := sipSends s @ [[Send_Sdp (''answer'', body), Send_Confirmed sess]] \<rparr>
          else s\<lparr> sipSends := sipSends s @ [[Send_Confirmed sess]] \<rparr>
        else if st = ''Canceled'' \<or> st = ''Failure'' \<or> st = ''Terminated'' then
          let s1 = s\<lparr> cr := (cr s)\<lparr> CallEndTime := now env \<rparr> \<rparr>;
              s2 = (if st = ''Failure''
                then let s1' = lh_log env ''sip: call failed?'' s1
                     in s1'\<lparr> cr := (cr s1')\<lparr> CallResult := ''Failed'' \<rparr> \<rparr>
                else s1\<lparr> cr := (cr s1)\<lparr> CallResult := ''Successful'' \<rparr> \<rparr>)
          in s2\<lparr> sipSends := sipSends s2 @ [[Send_Terminated sess]] \<rparr>
        else s)"

text \<open>One send, \<open>None\<close> while its channel (of capacity one) is full.\<close>

fun do_send :: "sip_send \<Rightarrow> ua_state \<Rightarrow> ua_state option" where
  "do_send (Send_Sdp d) s =
     (if sdpToMediaChan s = [] then Some (s\<lparr> sdpToMediaChan := [d] \<rparr>) else None)"
| "do_send (Send_Received x) s =
     (if callReceivedChan s = [] then Some (s\<lparr> callReceivedChan := [x] \<rparr>) else None)"
| "do_send (Send_Confirmed x) s =
     (if callConfirmedChan s = [] then Some (s\<lparr> callConfirmedChan := [x] \<rparr>) else None)"
| "do_send (Send_Terminated x) s =
     (if callTerminatedChan s = [] then Some (s\<lparr> callTerminatedChan := [x] \<rparr>) else None)"

subsection \<open>The cases of the select\<close>

definition drain_log :: "ua_env \<Rightarrow> ua_state \<Rightarrow> ua_state" where
  "drain_log env s = (fold (\<lambda>l. lh_log env (''     rtc: '' @ l)) (logChan s) s)\<lparr> logChan := [] \<rparr>"

definition ua_exit :: "ua_state \<Rightarrow> ua_state" where
  "ua_exit s = s\<lparr> pc := Exited, actions := actions s @ [Do_Unregister] \<rparr>"

text \<open>
  \<^verbatim>\<open>mediaCancel()\<close> and the wait for the media function that follows it: the context it was
  given is done (\<open>mediaCancelled\<close>), which is what makes it end unless it does so of itself.
\<close>

definition cancel_and_wait :: "stop_reason \<Rightarrow> ua_state \<Rightarrow> ua_state" where
  "cancel_and_wait why s = s\<lparr> mediaCancelled := True, pc := Await_Media why \<rparr>"

definition on_main_done :: "ua_state \<Rightarrow> ua_state" where
  "on_main_done s =
     (let s1 = (case currentSession s of
            None \<Rightarrow> s
          | Some sess \<Rightarrow> s\<lparr> actions := actions s @ [Do_End sess] \<rparr>)
      in if mediaCancel s1 then cancel_and_wait Main_Done s1 else ua_exit s1)"

text \<open>
  A \<^verbatim>\<open>MediaFunc\<close> is started for the call, with a context of its own; \<open>mediaStarts\<close> counts them. It
  records its tracks when the call is the one numbered 1 (\<open>mediaRecord\<close>).
\<close>

definition start_media :: "ua_state \<Rightarrow> ua_state" where
  "start_media s = s\<lparr> mediaCtx := True, mediaCancel := True, mediaCancelled := False,
     mediaRecord := (CallIndex (cr s) = 1), mediaStarts := mediaStarts s + 1 \<rparr>"

text \<open>The goroutine that called \<^verbatim>\<open>MediaFunc\<close> logs the error it returned, after it has told its end.\<close>

definition on_media_error :: "ua_env \<Rightarrow> string \<Rightarrow> string list \<Rightarrow> ua_state \<Rightarrow> ua_state" where
  "on_media_error env e rest s = lh_log env (''     rtc: returns err '' @ e) (s\<lparr> mediaErrors := rest \<rparr>)"

definition new_call :: "ua_env \<Rightarrow> int \<Rightarrow> ua_state \<Rightarrow> ua_state" where
  "new_call env idx s = s\<lparr> cr := (cr s)\<lparr> CallIndex := idx, CallStartTime := now env,
     CallEndTime := now env, CallID := [], CallResult := [], Logs := [] \<rparr> \<rparr>"

definition on_start_call :: "ua_env \<Rightarrow> int \<Rightarrow> ua_state \<Rightarrow> ua_state" where
  "on_start_call env idx s =
     (if currentSession s \<noteq> None \<or> mediaCtx s \<or> mediaCancel s then
        s\<lparr> uaLog := uaLog s @ [''['' @ Account (cr s) @ ''] already on a call?''] \<rparr>
      else let s1 = lh_log env (''ua: start '' @ show_int idx @ ''th call'') (new_call env idx s);
               s2 = s1\<lparr> uaLog := uaLog s1 @ [''['' @ Account (cr s1) @ ''] UA: start '' @ show_int idx @
                      ''th call, to '' @ RemoteAccount (cr s1)] \<rparr>
        in start_media s2)"

text \<open>\<open>invited\<close> is what \<^verbatim>\<open>ua.Invite\<close> returns, no session when it fails.\<close>

definition on_local_sdp :: "ua_env \<Rightarrow> sip_session option \<Rightarrow> session_description \<Rightarrow> ua_state \<Rightarrow> ua_state" where
  "on_local_sdp env invited sdp s =
     (if fst sdp = ''offer'' then
        let s1 = lh_log env ''sip: start to invite'' s;
            s2 = s1\<lparr> actions := actions s1 @ [Do_Invite (snd sdp)], currentSession := invited \<rparr>
        in (case invited of
              None \<Rightarrow> s2
            | Some sess \<Rightarrow>
                lh_log env (''sip: Call-ID is '' @ callId sess)
                  (s2\<lparr> cr := (cr s2)\<lparr> CallStartTime := now env, CallID := callId sess \<rparr> \<rparr>))
      else if fst sdp = ''answer'' then
        let s1 = lh_log env ''sip: start to answer'' s
        in (case currentSession s1 of
              None \<Rightarrow> s1
            | Some sess \<Rightarrow> s1\<lparr> actions := actions s1 @ [Do_Answer sess (snd sdp), Do_Accept sess] \<rparr>)
      else s)"

definition on_confirmed :: "ua_env \<Rightarrow> ua_state \<Rightarrow> ua_state" where
  "on_confirmed env s =
     (if 0 < CallDuration (profile env) then
        if callDurationCtx s \<or> callDurationCancel s then s
        else (lh_log env ''sip: call confirmed, call duration timer created'' s)
               \<lparr> callDurationCtx := True, callDurationCancel := True \<rparr>
      else lh_log env ''sip: call confirmed'' s)"

text \<open>A second call while one is on: it is ended and reported as failed, in a report of its own.\<close>

definition busy_report :: "ua_env \<Rightarrow> int \<Rightarrow> sip_session \<Rightarrow> call_report \<Rightarrow> call_report" where
  "busy_report env idx sess r = r\<lparr> CallIndex := idx, RemoteAccount := caller sess,
     CallStartTime := now env, CallEndTime := now env, CallID := callId sess, CallResult := ''Failed'',
     Logs := [printTime env (now env) @ '' UA: received a new call from '' @ caller sess @
       '' while calling? hang up it''] \<rparr>"

definition on_received :: "ua_env \<Rightarrow> sip_session \<Rightarrow> ua_state \<Rightarrow> ua_state" where
  "on_received env sess s0 =
     (let s = s0\<lparr> uasCallIndex := uasCallIndex s0 + 1 \<rparr>; idx = uasCallIndex s
      in (case currentSession s of
            Some cur \<Rightarrow>
              if sid cur = sid sess then lh_log env ''sip: got duplicated session?'' s
              else if callId cur = callId sess then
                lh_log env ''sip: got duplicated session with same callid?'' s
              else s\<lparr> uaLog := uaLog s @ [''['' @ Account (cr s) @ ''] UA: received a new call from '' @
                         caller sess @ '' while calling? hang up it''],
                      actions := actions s @ [Do_End sess],
                      reported := reported s @ [busy_report env idx sess (cr s)] \<rparr>
          | None \<Rightarrow>
              let s1 = new_call env idx s;
                  s2 = s1\<lparr> cr := (cr s1)\<lparr> RemoteAccount := caller sess, CallID := callId sess \<rparr> \<rparr>;
                  s3 = lh_log env (''ua: received '' @ show_int idx @ ''th call'') s2;
                  s4 = s3\<lparr> uaLog := uaLog s3 @ [''['' @ Account (cr s3) @ ''] UA: received '' @
                         show_int idx @ ''th call, from '' @ RemoteAccount (cr s3)] \<rparr>;
                  s5 = lh_log env (''sip: Call-ID is '' @ callId sess) s4
              in start_media (s5\<lparr> currentSession := Some sess \<rparr>)))"

text \<open>The end of a call, once its media function has ended.\<close>

definition finish_call :: "ua_env \<Rightarrow> ua_state \<Rightarrow> ua_state" where
  "finish_call env s =
     (let s1 = s\<lparr> callDurationCtx := (if callDurationCancel s then False else callDurationCtx s),
                callDurationCancel := False, pc := At_Select \<rparr>
      in if is_uac env then s1\<lparr> reporters := reporters s1 @ [Reporter_New] \<rparr>
         else s1\<lparr> reported := reported s1 @ [cr s1] \<rparr>)"

definition on_terminated :: "ua_env \<Rightarrow> sip_session \<Rightarrow> ua_state \<Rightarrow> ua_state" where
  "on_terminated env sess s =
     (case currentSession s of
        None \<Rightarrow> s\<lparr> uaLog := uaLog s @ [''['' @ Account (cr s) @
                  ''] sip: call terminated, but currentSession is already nil?''] \<rparr>
      | Some cur \<Rightarrow>
          let s1 = lh_log env ''sip: call terminated'' s;
              s2 = s1\<lparr> uaLog := uaLog s1 @ [''['' @ Account (cr s1) @ ''] UA: '' @
                     show_int (CallIndex (cr s1)) @ ''th call terminated, with '' @
                     RemoteAccount (cr s1) @ '', result '' @ CallResult (cr s1)] \<rparr>
          in if sid cur \<noteq> sid sess then
               lh_log env ''sip: currentSession != sess, not my current session?'' s2
             else let s3 = s2\<lparr> currentSession := None \<rparr>
               in if mediaCancel s3 then cancel_and_wait Call_Over s3 else finish_call env s3)"

text \<open>The receive from \<^verbatim>\<open>mediaFuncEndChan\<close> and what follows it in either case.\<close>

definition on_media_end :: "ua_env \<Rightarrow> stop_reason \<Rightarrow> ua_state \<Rightarrow> ua_state" where
  "on_media_end env why s =
     (let s1 = drain_log env (s\<lparr> mediaFuncEndChan := mediaFuncEndChan s - 1 \<rparr>)
      in (case why of
            Main_Done \<Rightarrow> ua_exit s1
          | Call_Over \<Rightarrow>
              finish_call env (s1\<lparr> mediaCtx := False, mediaCancel := False, sdpToMediaChan := [] \<rparr>)))"

definition on_duration :: "ua_env \<Rightarrow> ua_state \<Rightarrow> ua_state" where
  "on_duration env s =
     (let s1 = lh_log env ''sip: call duration reached, timeout'' s;
          s2 = (case currentSession s1 of
              None \<Rightarrow> s1
            | Some sess \<Rightarrow>
                let s1' = lh_log env ''sip: hang up the current session'' (s1\<lparr> hangupByMe := True \<rparr>)
                in s1'\<lparr> actions := actions s1' @ [Do_End sess] \<rparr>)
      in s2\<lparr> callDurationCtx := False, callDurationCancel := False \<rparr>)"

definition on_log :: "ua_env \<Rightarrow> string \<Rightarrow> ua_state \<Rightarrow> ua_state" where
  "on_log env l s = lh_log env (''     rtc: '' @ l) s"

text \<open>
  The goroutine that reports a caller's call: after its own hang-up it sleeps first; the report is
  read when it is sent.
\<close>

definition on_reporter :: "ua_env \<Rightarrow> reporter \<Rightarrow> reporter list \<Rightarrow> ua_state \<Rightarrow> ua_state" where
  "on_reporter env r rest s =
     (case r of
        Reporter_New \<Rightarrow>
          if hangupByMe s then
            (lh_log env ''ua: wait 5 seconds for remote cleaning'' s)\<lparr> reporters := Reporter_Slept # rest \<rparr>
          else s\<lparr> reported := reported s @ [cr s], reporters := rest \<rparr>
      | Reporter_Slept \<Rightarrow>
          s\<lparr> hangupByMe := False, reported := reported s @ [cr s], reporters := rest \<rparr>)"

lemmas [step_defs] = on_main_done_def cancel_and_wait_def on_media_error_def start_media_def new_call_def on_start_call_def on_local_sdp_def
  on_confirmed_def on_received_def finish_call_def on_terminated_def on_media_end_def on_duration_def
  on_log_def on_reporter_def ua_exit_def

end
