(* ===== verification/Ua_System.thy ===== *)
theory Ua_System
  imports Ua
begin

text \<open>
  A user agent with its surroundings: the SIP stack that calls \<open>invite_state\<close> at any time, the
  media function (which gives at most one description, takes descriptions, logs, and tells its
  end), and a dispatcher that starts a call only when the last one was reported. The invariant of
  this system and what follows from it.
\<close>

subsection \<open>Frames\<close>

lemma lh_log_frame [simp]:
  "pc (lh_log env m s) = pc s" "currentSession (lh_log env m s) = currentSession s"
  "mediaCtx (lh_log env m s) = mediaCtx s" "mediaCancel (lh_log env m s) = mediaCancel s"
  "mediaCancelled (lh_log env m s) = mediaCancelled s" "mediaRecord (lh_log env m s) = mediaRecord s"
  "mediaErrors (lh_log env m s) = mediaErrors s"
  "callDurationCtx (lh_log env m s) = callDurationCtx s"
  "callDurationCancel (lh_log env m s) = callDurationCancel s"
  "hangupByMe (lh_log env m s) = hangupByMe s"
  "sdpToMediaChan (lh_log env m s) = sdpToMediaChan s"
  "sdpFromMediaChan (lh_log env m s) = sdpFromMediaChan s"
  "callConfirmedChan (lh_log env m s) = callConfirmedChan s"
  "callReceivedChan (lh_log env m s) = callReceivedChan s"
  "callTerminatedChan (lh_log env m s) = callTerminatedChan s"
  "logChan (lh_log env m s) = logChan s" "mediaFuncEndChan (lh_log env m s) = mediaFuncEndChan s"
  "uasCallIndex (lh_log env m s) = uasCallIndex s" "sipSends (lh_log env m s) = sipSends s"
  "actions (lh_log env m s) = actions s" "mediaStarts (lh_log env m s) = mediaStarts s"
  "reporters (lh_log env m s) = reporters s" "reported (lh_log env m s) = reported s"
  by (simp_all add: lh_log_def split_def Let_def)

lemma lh_log_cr [simp]:
  "CallIndex (cr (lh_log env m s)) = CallIndex (cr s)"
  "Account (cr (lh_log env m s)) = Account (cr s)"
  "AccountIndex (cr (lh_log env m s)) = AccountIndex (cr s)"
  "RemoteAccount (cr (lh_log env m s)) = RemoteAccount (cr s)"
  "CallID (cr (lh_log env m s)) = CallID (cr s)"
  "CallResult (cr (lh_log env m s)) = CallResult (cr s)"
  by (simp_all add: lh_log_def split_def Let_def)

lemma drain_log_frame [simp]:
  "pc (drain_log env s) = pc s" "currentSession (drain_log env s) = currentSession s"
  "mediaCtx (drain_log env s) = mediaCtx s" "mediaCancel (drain_log env s) = mediaCancel s"
  "mediaCancelled (drain_log env s) = mediaCancelled s" "mediaErrors (drain_log env s) = mediaErrors s"
  "callDurationCtx (drain_log env s) = callDurationCtx s"
  "callDurationCancel (drain_log env s) = callDurationCancel s"
  "hangupByMe (drain_log env s) = hangupByMe s"
  "sdpToMediaChan (drain_log env s) = sdpToMediaChan s"
  "sdpFromMediaChan (drain_log env s) = sdpFromMediaChan s"
  "callReceivedChan (drain_log env s) = callReceivedChan s"
  "callTerminatedChan (drain_log env s) = callTerminatedChan s"
  "logChan (drain_log env s) = []" "mediaFuncEndChan (drain_log env s) = mediaFuncEndChan s"
  "sipSends (drain_log env s) = sipSends s" "mediaStarts (drain_log env s) = mediaStarts s"
  "reporters (drain_log env s) = reporters s" "reported (drain_log env s) = reported s"
  "AccountIndex (cr (drain_log env s)) = AccountIndex (cr s)"
  "CallIndex (cr (drain_log env s)) = CallIndex (cr s)"
  "CallResult (cr (drain_log env s)) = CallResult (cr s)"
proof -
  have "P (fold (\<lambda>l. lh_log env (''     rtc: '' @ l)) ls s)"
    if "P s" "\<And>m t. P t \<Longrightarrow> P (lh_log env m t)" for P ls
    using that by (induction ls arbitrary: s) auto
  note f = this
  note ff = f [of "\<lambda>t. pc t = pc s \<and> currentSession t = currentSession s \<and> mediaCtx t = mediaCtx s \<and>
    mediaCancel t = mediaCancel s \<and> mediaCancelled t = mediaCancelled s \<and> mediaErrors t = mediaErrors s \<and> callDurationCtx t = callDurationCtx s \<and>
    callDurationCancel t = callDurationCancel s \<and> hangupByMe t = hangupByMe s \<and>
    sdpToMediaChan t = sdpToMediaChan s \<and> sdpFromMediaChan t = sdpFromMediaChan s \<and>
    callReceivedChan t = callReceivedChan s \<and> callTerminatedChan t = callTerminatedChan s \<and>
    mediaFuncEndChan t = mediaFuncEndChan s \<and> sipSends t = sipSends s \<and> mediaStarts t = mediaStarts s \<and>
    reporters t = reporters s \<and> reported t = reported s \<and> AccountIndex (cr t) = AccountIndex (cr s) \<and>
    CallIndex (cr t) = CallIndex (cr s) \<and> CallResult (cr t) = CallResult (cr s)" "logChan s"]
  show "pc (drain_log env s) = pc s" "currentSession (drain_log env s) = currentSession s"
  "mediaCtx (drain_log env s) = mediaCtx s" "mediaCancel (drain_log env s) = mediaCancel s"
  "mediaCancelled (drain_log env s) = mediaCancelled s" "mediaErrors (drain_log env s) = mediaErrors s"
  "callDurationCtx (drain_log env s) = callDurationCtx s"
  "callDurationCancel (drain_log env s) = callDurationCancel s"
  "hangupByMe (drain_log env s) = hangupByMe s"
  "sdpToMediaChan (drain_log env s) = sdpToMediaChan s"
  "sdpFromMediaChan (drain_log env s) = sdpFromMediaChan s"
  "callReceivedChan (drain_log env s) = callReceivedChan s"
  "callTerminatedChan (drain_log env s) = callTerminatedChan s"
  "logChan (drain_log env s) = []" "mediaFuncEndChan (drain_log env s) = mediaFuncEndChan s"
  "sipSends (drain_log env s) = sipSends s" "mediaStarts (drain_log env s) = mediaStarts s"
  "reporters (drain_log env s) = reporters s" "reported (drain_log env s) = reported s"
  "AccountIndex (cr (drain_log env s)) = AccountIndex (cr s)"
  "CallIndex (cr (drain_log env s)) = CallIndex (cr s)"
  "CallResult (cr (drain_log env s)) = CallResult (cr s)"
    using ff by (auto simp: drain_log_def)
qed

subsection \<open>The system\<close>

datatype media_stage = No_Media | Media_Running | Media_Ended

record ua_sys =
  ua :: ua_state
  media :: media_stage
  mediaResult :: "string option"
  offered :: bool
  started :: nat
  lastIndex :: int
  mainDone :: bool

definition env_at :: "call_profile \<Rightarrow> (int \<Rightarrow> string) \<Rightarrow> int \<Rightarrow> ua_env" where
  "env_at cp pt t = \<lparr> profile = cp, now = t, printTime = pt \<rparr>"

text \<open>
  A case that starts a media function: it runs, has given no description yet, and has not decided
  what it returns (\<open>mediaResult\<close>, an error's text).
\<close>

definition after_case :: "ua_state \<Rightarrow> ua_sys \<Rightarrow> ua_sys" where
  "after_case s' b =
     (if mediaStarts s' = mediaStarts (ua b) then b\<lparr> ua := s' \<rparr>
      else b\<lparr> ua := s', media := Media_Running, mediaResult := None, offered := False \<rparr>)"

definition local_type :: "call_profile \<Rightarrow> string" where
  "local_type cp = (if Role cp = ''uac'' then ''offer'' else ''answer'')"

text \<open>The cases of the \<^verbatim>\<open>select\<close>, and the receive a case may wait at.\<close>

inductive ua_case :: "call_profile \<Rightarrow> ua_env \<Rightarrow> ua_sys \<Rightarrow> ua_sys \<Rightarrow> bool"
  for cp :: call_profile and env :: ua_env where
  main_done_case: "pc (ua b) = At_Select \<Longrightarrow> mainDone b \<Longrightarrow>
    ua_case cp env b (after_case (on_main_done (ua b)) b)"
| start_call_case: "pc (ua b) = At_Select \<Longrightarrow> Role cp = ''uac'' \<Longrightarrow> started b = length (reported (ua b)) \<Longrightarrow>
    ua_case cp env b ((after_case (on_start_call env idx (ua b)) b)
      \<lparr> started := started b + 1, lastIndex := idx \<rparr>)"
| local_sdp_case: "pc (ua b) = At_Select \<Longrightarrow> sdpFromMediaChan (ua b) = sdp # rest \<Longrightarrow>
    ua_case cp env b (after_case (on_local_sdp env invited sdp ((ua b)\<lparr> sdpFromMediaChan := rest \<rparr>)) b)"
| confirmed_case: "pc (ua b) = At_Select \<Longrightarrow> callConfirmedChan (ua b) = sess # rest \<Longrightarrow>
    ua_case cp env b (after_case (on_confirmed env ((ua b)\<lparr> callConfirmedChan := rest \<rparr>)) b)"
| received_case: "pc (ua b) = At_Select \<Longrightarrow> callReceivedChan (ua b) = sess # rest \<Longrightarrow>
    ua_case cp env b (after_case (on_received env sess ((ua b)\<lparr> callReceivedChan := rest \<rparr>)) b)"
| terminated_case: "pc (ua b) = At_Select \<Longrightarrow> callTerminatedChan (ua b) = sess # rest \<Longrightarrow>
    ua_case cp env b (after_case (on_terminated env sess ((ua b)\<lparr> callTerminatedChan := rest \<rparr>)) b)"
| duration_case: "pc (ua b) = At_Select \<Longrightarrow> callDurationCtx (ua b) \<Longrightarrow>
    ua_case cp env b (after_case (on_duration env (ua b)) b)"
| log_case: "pc (ua b) = At_Select \<Longrightarrow> logChan (ua b) = l # rest \<Longrightarrow>
    ua_case cp env b (after_case (on_log env l ((ua b)\<lparr> logChan := rest \<rparr>)) b)"
| media_end_receive: "pc (ua b) = Await_Media why \<Longrightarrow> 0 < mediaFuncEndChan (ua b) \<Longrightarrow>
    ua_case cp env b ((after_case (on_media_end env why (ua b)) b)\<lparr> media := No_Media \<rparr>)"

text \<open>Everything else that runs: the reporters, the SIP stack, the media function, the main context.\<close>

inductive ua_around :: "call_profile \<Rightarrow> ua_env \<Rightarrow> ua_sys \<Rightarrow> ua_sys \<Rightarrow> bool"
  for cp :: call_profile and env :: ua_env where
  reporter_runs: "reporters (ua b) = xs @ r # ys \<Longrightarrow>
    ua_around cp env b (b\<lparr> ua := on_reporter env r (xs @ ys) (ua b) \<rparr>)"
| stack_calls: "ua_around cp env b (b\<lparr> ua := invite_state env sess body st (ua b) \<rparr>)"
| stack_sends: "sipSends (ua b) = xs @ (a # as) # ys \<Longrightarrow> do_send a (ua b) = Some s \<Longrightarrow>
    ua_around cp env b (b\<lparr> ua := s\<lparr> sipSends := xs @ as # ys \<rparr> \<rparr>)"
| media_describes: "media b = Media_Running \<Longrightarrow> \<not> offered b \<Longrightarrow> sdpFromMediaChan (ua b) = [] \<Longrightarrow>
    ua_around cp env b
      (b\<lparr> ua := (ua b)\<lparr> sdpFromMediaChan := [(local_type cp, body)] \<rparr>, offered := True \<rparr>)"
| media_takes: "media b = Media_Running \<Longrightarrow> sdpToMediaChan (ua b) = d # rest \<Longrightarrow>
    ua_around cp env b (b\<lparr> ua := (ua b)\<lparr> sdpToMediaChan := rest \<rparr> \<rparr>)"
| media_logs: "length (logChan (ua b)) < 50 \<Longrightarrow>
    ua_around cp env b (b\<lparr> ua := (ua b)\<lparr> logChan := logChan (ua b) @ [l] \<rparr> \<rparr>)"
| media_returns: "media b = Media_Running \<Longrightarrow>
    ua_around cp env b (b\<lparr> mediaResult := Some e \<rparr>)"
| media_ends: "media b = Media_Running \<Longrightarrow> length (logChan (ua b)) < 50 \<Longrightarrow>
    ua_around cp env b
      (b\<lparr> ua := (ua b)\<lparr> logChan := logChan (ua b) @ [''MediaFunc exits''],
             mediaFuncEndChan := mediaFuncEndChan (ua b) + 1,
             mediaErrors := mediaErrors (ua b) @ (case mediaResult b of None \<Rightarrow> [] | Some e \<Rightarrow> [e]) \<rparr>,
         media := Media_Ended \<rparr>)"
| media_error_logged: "mediaErrors (ua b) = xs @ e # ys \<Longrightarrow>
    ua_around cp env b (b\<lparr> ua := on_media_error env e (xs @ ys) (ua b) \<rparr>)"
| other_agent: "ua_around cp env b (b\<lparr> ua := (ua b)\<lparr> uasCallIndex := uasCallIndex (ua b) + 1 \<rparr> \<rparr>)"
| main_cancelled: "ua_around cp env b (b\<lparr> mainDone := True \<rparr>)"

inductive ua_step :: "call_profile \<Rightarrow> (int \<Rightarrow> string) \<Rightarrow> ua_sys \<Rightarrow> ua_sys \<Rightarrow> bool"
  for cp :: call_profile and pt :: "int \<Rightarrow> string" where
  by_case: "ua_case cp (env_at cp pt t) b b' \<Longrightarrow> ua_step cp pt b b'"
| by_other: "ua_around cp (env_at cp pt t) b b' \<Longrightarrow> ua_step cp pt b b'"

inductive_cases ua_caseE: "ua_case cp env b b'"
inductive_cases ua_aroundE: "ua_around cp env b b'"
inductive_simps ua_step_iff: "ua_step cp pt b b'"

definition ua_start :: "call_profile \<Rightarrow> nat \<Rightarrow> ua_sys \<Rightarrow> bool" where
  "ua_start cp k b = (k < agents_of cp \<and> (\<exists>listen register acc called r.
     ua_setup listen register cp k = Returns (Ready acc called r) \<and>
     b = \<lparr> ua = ua_init r, media = No_Media, mediaResult = None, offered = False, started = 0, lastIndex = 0,
       mainDone = False \<rparr>))"

subsection \<open>The invariant\<close>

text \<open>The two fields of a context are set and reset together.\<close>

definition contexts_ok :: "ua_state \<Rightarrow> bool" where
  "contexts_ok s = (mediaCtx s = mediaCancel s \<and> callDurationCtx s = callDurationCancel s)"

text \<open>A media function exists exactly while \<^verbatim>\<open>mediaCancel\<close> is set, and its end is told once.\<close>

definition media_ok :: "ua_sys \<Rightarrow> bool" where
  "media_ok b = ((pc (ua b) \<noteq> Exited \<longrightarrow> mediaCancel (ua b) = (media b \<noteq> No_Media)) \<and>
     (media b \<noteq> No_Media \<longrightarrow> mediaCancel (ua b)) \<and>
     mediaFuncEndChan (ua b) = of_bool (media b = Media_Ended))"

text \<open>
  A session needs a media function, and so does a case that waits for one to end, which has cancelled
  it before.
\<close>

definition session_ok :: "ua_sys \<Rightarrow> bool" where
  "session_ok b = ((currentSession (ua b) \<noteq> None \<longrightarrow> mediaCancel (ua b)) \<and>
     (\<forall>why. pc (ua b) = Await_Media why \<longrightarrow> mediaCancel (ua b) \<and> mediaCancelled (ua b)) \<and>
     (pc (ua b) = Await_Media Call_Over \<longrightarrow> currentSession (ua b) = None))"

definition caller_ok :: "ua_sys \<Rightarrow> bool" where
  "caller_ok b =
     (list_all (\<lambda>d. fst d = ''offer'') (sdpFromMediaChan (ua b)) \<and> length (sdpFromMediaChan (ua b)) \<le> 1 \<and>
      (currentSession (ua b) \<noteq> None \<or> pc (ua b) = Await_Media Call_Over \<longrightarrow>
         offered b \<and> sdpFromMediaChan (ua b) = []) \<and>
      (sdpFromMediaChan (ua b) \<noteq> [] \<longrightarrow> offered b \<and> mediaCancel (ua b)) \<and>
      callReceivedChan (ua b) = [] \<and>
      list_all (list_all (\<lambda>a. \<forall>x. a \<noteq> Send_Received x)) (sipSends (ua b)) \<and>
      started b = length (reported (ua b)) + length (reporters (ua b)) + of_bool (mediaCancel (ua b)) \<and>
      (mediaCancel (ua b) \<longrightarrow> reporters (ua b) = []) \<and> length (reporters (ua b)) \<le> 1 \<and>
      (started b \<noteq> length (reported (ua b)) \<longrightarrow> CallIndex (cr (ua b)) = lastIndex b))"

definition callee_ok :: "ua_sys \<Rightarrow> bool" where
  "callee_ok b =
     (list_all (\<lambda>d. fst d = ''answer'') (sdpFromMediaChan (ua b)) \<and>
      (pc (ua b) = At_Select \<longrightarrow> mediaCancel (ua b) \<longrightarrow> currentSession (ua b) \<noteq> None) \<and>
      reporters (ua b) = [])"

definition report_of :: "nat \<Rightarrow> call_report \<Rightarrow> bool" where
  "report_of k r = (AccountIndex r = int k \<and> CallResult r \<in> {''Successful'', ''Failed'', ''''})"

definition reports_ok :: "nat \<Rightarrow> ua_state \<Rightarrow> bool" where
  "reports_ok k s = (report_of k (cr s) \<and> list_all (report_of k) (reported s))"

definition ua_ok :: "call_profile \<Rightarrow> nat \<Rightarrow> ua_sys \<Rightarrow> bool" where
  "ua_ok cp k b = (contexts_ok (ua b) \<and> media_ok b \<and> session_ok b \<and>
     (if Role cp = ''uac'' then caller_ok b else callee_ok b) \<and> reports_ok k (ua b))"

lemmas ua_ok_defs = ua_ok_def contexts_ok_def media_ok_def session_ok_def caller_ok_def callee_ok_def
  reports_ok_def

lemma report_of_update [simp]:
  "report_of k (r\<lparr> CallIndex := i \<rparr>) = report_of k r" "report_of k (r\<lparr> RemoteAccount := a \<rparr>) = report_of k r"
  "report_of k (r\<lparr> CallStartTime := t \<rparr>) = report_of k r" "report_of k (r\<lparr> CallEndTime := t \<rparr>) = report_of k r"
  "report_of k (r\<lparr> CallID := c \<rparr>) = report_of k r" "report_of k (r\<lparr> Logs := l \<rparr>) = report_of k r"
  by (simp_all add: report_of_def)

lemma report_of_result [simp]:
  "report_of k r \<Longrightarrow> report_of k (r\<lparr> CallResult := ''Failed'' \<rparr>)"
  "report_of k r \<Longrightarrow> report_of k (r\<lparr> CallResult := ''Successful'' \<rparr>)"
  "report_of k r \<Longrightarrow> report_of k (r\<lparr> CallResult := [] \<rparr>)"
  by (simp_all add: report_of_def)

lemma report_of_log [simp]:
  "report_of k (cr (lh_log env m s)) = report_of k (cr s)"
  "report_of k (cr (drain_log env s)) = report_of k (cr s)"
  by (simp_all add: report_of_def)

lemma env_at_simps [simp]:
  "profile (env_at cp pt t) = cp" "now (env_at cp pt t) = t" "printTime (env_at cp pt t) = pt"
  by (simp_all add: env_at_def)

lemma after_case_ua [simp]: "ua (after_case s b) = s" "started (after_case s b) = started b"
    "lastIndex (after_case s b) = lastIndex b"
    "mainDone (after_case s b) = mainDone b"
  by (simp_all add: after_case_def)

lemma after_case_same: "mediaStarts s = mediaStarts (ua b) \<Longrightarrow> after_case s b = b\<lparr> ua := s \<rparr>"
  by (simp add: after_case_def)

text \<open>What the invariant reads; a step that leaves it alone keeps the invariant.\<close>

definition no_received :: "ua_state \<Rightarrow> bool" where
  "no_received s = (callReceivedChan s = [] \<and>
     list_all (list_all (\<lambda>a. \<forall>x. a \<noteq> Send_Received x)) (sipSends s))"

lemma ua_ok_frame:
  assumes ok: "ua_ok cp k b"
    and same: "pc (ua b') = pc (ua b)" "currentSession (ua b') = currentSession (ua b)"
      "mediaCtx (ua b') = mediaCtx (ua b)" "mediaCancel (ua b') = mediaCancel (ua b)"
      "mediaCancelled (ua b') = mediaCancelled (ua b)"
      "mediaFuncEndChan (ua b') = mediaFuncEndChan (ua b)"
      "sdpFromMediaChan (ua b') = sdpFromMediaChan (ua b)"
      "reporters (ua b') = reporters (ua b)" "reported (ua b') = reported (ua b)"
      "media b' = media b" "offered b' = offered b" "started b' = started b"
      "lastIndex b' = lastIndex b" "CallIndex (cr (ua b')) = CallIndex (cr (ua b))"
    and timer: "callDurationCtx (ua b') = callDurationCancel (ua b')"
    and report: "report_of k (cr (ua b'))"
    and calls: "Role cp = ''uac'' \<Longrightarrow> no_received (ua b) \<Longrightarrow> no_received (ua b')"
  shows "ua_ok cp k b'"
proof -
  have "contexts_ok (ua b')" "media_ok b'" "session_ok b'" "reports_ok k (ua b')"
    using ok timer report unfolding ua_ok_def contexts_ok_def media_ok_def session_ok_def reports_ok_def same
    by blast+
  moreover have "caller_ok b'" if u: "Role cp = ''uac''"
  proof -
    have c: "caller_ok b" using ok u by (simp add: ua_ok_def)
    then have "no_received (ua b')" using calls [OF u] by (simp add: caller_ok_def no_received_def)
    then show ?thesis using c unfolding caller_ok_def same no_received_def by (elim conjE) (intro conjI; assumption)
  qed
  moreover have "callee_ok b'" if u: "Role cp \<noteq> ''uac''"
  proof -
    have "callee_ok b" using ok u by (simp add: ua_ok_def)
    then show ?thesis unfolding callee_ok_def same .
  qed
  ultimately show ?thesis by (simp add: ua_ok_def)
qed

lemma ua_okD:
  assumes "ua_ok cp k b"
  shows "callDurationCtx (ua b) = callDurationCancel (ua b)" "report_of k (cr (ua b))"
    "mediaCtx (ua b) = mediaCancel (ua b)"
  using assms by (simp_all add: ua_ok_def contexts_ok_def reports_ok_def)

lemma ua_case_ok:
  assumes role: "valid_profile cp" and ok: "ua_ok cp k b" and st: "ua_case cp (env_at cp pt t) b b'"
  shows "ua_ok cp k b'"
  using st
proof (cases rule: ua_case.cases)
  case main_done_case
  then show ?thesis using ok
    by (cases "currentSession (ua b)") (auto simp: on_main_done_def cancel_and_wait_def ua_exit_def after_case_def ua_ok_defs Let_def)
next
  case (start_call_case idx)
  note b' = start_call_case(1) and c = start_call_case(2-4)
  have n: "\<not> mediaCancel (ua b)" "reporters (ua b) = []" "currentSession (ua b) = None"
      "sdpFromMediaChan (ua b) = []"
    using ok c by (auto simp: ua_ok_def caller_ok_def session_ok_def)
  then show ?thesis using ok c
    by (simp add: b' on_start_call_def start_media_def new_call_def after_case_def ua_ok_defs Let_def)
next
  case (local_sdp_case sdp rest invited)
  note b' = local_sdp_case(1) and l = local_sdp_case(2,3)
  show ?thesis
  proof (cases "Role cp = ''uac''")
    case True
    have f: "fst sdp = ''offer''" "rest = []" "offered b" "mediaCancel (ua b)"
      using ok l True by (auto simp: ua_ok_def caller_ok_def)
    show ?thesis using ok f l True
      by (cases invited) (simp_all add: b' on_local_sdp_def after_case_def ua_ok_defs Let_def)
  next
    case False
    have f: "fst sdp = ''answer''" using ok l False by (auto simp: ua_ok_def callee_ok_def)
    show ?thesis using ok f l False
      by (cases "currentSession (ua b)"; auto simp: b' on_local_sdp_def after_case_def ua_ok_defs Let_def)
  qed
next
  case (confirmed_case sess rest)
  show ?thesis unfolding confirmed_case(1)
    by (rule ua_ok_frame [OF ok]) (simp_all add: on_confirmed_def after_case_def ua_okD [OF ok] no_received_def)
next
  case (received_case sess rest)
  note b' = received_case(1) and r = received_case(2,3)
  show ?thesis
  proof (cases "Role cp = ''uac''")
    case True
    then show ?thesis using ok r by (simp add: ua_ok_def caller_ok_def)
  next
    case False
    show ?thesis
    proof (cases "currentSession (ua b)")
      case None
      then have "\<not> mediaCancel (ua b)" using ok r False by (auto simp: ua_ok_def callee_ok_def)
      then show ?thesis using ok r False None
        by (simp add: b' on_received_def start_media_def new_call_def after_case_def ua_ok_defs Let_def)
    next
      case (Some cur)
      then have "mediaCancel (ua b)" using ok by (simp add: ua_ok_def session_ok_def)
      then show ?thesis using ok r False Some
        by (simp add: b' on_received_def busy_report_def after_case_def ua_ok_defs Let_def)
    qed
  qed
next
  case (terminated_case sess rest)
  note b' = terminated_case(1) and at = terminated_case(2)
  show ?thesis
  proof (cases "\<exists>cur. currentSession (ua b) = Some cur \<and> sid cur = sid sess")
    case False
    then show ?thesis unfolding b'
      by (intro ua_ok_frame [OF ok])
        (auto simp: on_terminated_def after_case_def ua_okD [OF ok] no_received_def Let_def split: option.split)
  next
    case True
    then obtain cur where cur: "currentSession (ua b) = Some cur" "sid cur = sid sess" by blast
    have m: "mediaCancel (ua b)" "media b \<noteq> No_Media"
      using ok cur at by (auto simp: ua_ok_def session_ok_def media_ok_def)
    show ?thesis
    proof (cases "Role cp = ''uac''")
      case True
      have "offered b" "sdpFromMediaChan (ua b) = []" using ok cur True by (auto simp: ua_ok_def caller_ok_def)
      then show ?thesis using ok cur at m True
        by (simp add: b' on_terminated_def cancel_and_wait_def after_case_def ua_ok_defs Let_def)
    next
      case False
      then show ?thesis using ok cur at m
        by (simp add: b' on_terminated_def cancel_and_wait_def after_case_def ua_ok_defs Let_def)
    qed
  qed
next
  case duration_case
  show ?thesis unfolding duration_case(1)
    by (rule ua_ok_frame [OF ok])
      (simp_all add: on_duration_def after_case_def ua_okD [OF ok] no_received_def Let_def split: option.split)
next
  case (log_case l rest)
  show ?thesis unfolding log_case(1)
    by (rule ua_ok_frame [OF ok]) (simp_all add: on_log_def after_case_def ua_okD [OF ok] no_received_def)
next
  case (media_end_receive why)
  then show ?thesis using ok
    by (cases why) (auto simp: on_media_end_def finish_call_def ua_exit_def is_uac_def after_case_def ua_ok_defs Let_def)
qed

lemma invite_state_frame [simp]:
  "pc (invite_state env sess body st s) = pc s"
  "currentSession (invite_state env sess body st s) = currentSession s"
  "mediaCtx (invite_state env sess body st s) = mediaCtx s"
  "mediaCancel (invite_state env sess body st s) = mediaCancel s"
  "mediaCancelled (invite_state env sess body st s) = mediaCancelled s"
  "callDurationCtx (invite_state env sess body st s) = callDurationCtx s"
  "callDurationCancel (invite_state env sess body st s) = callDurationCancel s"
  "sdpFromMediaChan (invite_state env sess body st s) = sdpFromMediaChan s"
  "callReceivedChan (invite_state env sess body st s) = callReceivedChan s"
  "callTerminatedChan (invite_state env sess body st s) = callTerminatedChan s"
  "logChan (invite_state env sess body st s) = logChan s"
  "mediaFuncEndChan (invite_state env sess body st s) = mediaFuncEndChan s"
  "mediaStarts (invite_state env sess body st s) = mediaStarts s"
  "reporters (invite_state env sess body st s) = reporters s"
  "reported (invite_state env sess body st s) = reported s"
  by (simp_all add: invite_state_def Let_def)

lemma invite_state_report: "report_of k (cr s) \<Longrightarrow> report_of k (cr (invite_state env sess body st s))"
  by (simp add: invite_state_def Let_def)

lemma invite_state_index [simp]: "CallIndex (cr (invite_state env sess body st s)) = CallIndex (cr s)"
  by (simp add: invite_state_def Let_def)

lemma invite_state_sends:
  "\<exists>new. sipSends (invite_state env sess body st s) = sipSends s @ new \<and>
     (\<not> is_uas env \<longrightarrow> list_all (list_all (\<lambda>a. \<forall>x. a \<noteq> Send_Received x)) new)"
  by (simp add: invite_state_def Let_def)

lemma invite_state_ok:
  assumes ok: "ua_ok cp k b"
  shows "ua_ok cp k (b\<lparr> ua := invite_state (env_at cp pt t) sess body st (ua b) \<rparr>)"
proof (rule ua_ok_frame [OF ok])
  assume u: "Role cp = ''uac''" and n: "no_received (ua b)"
  from invite_state_sends [of "env_at cp pt t" sess body st "ua b"] obtain new where
    "sipSends (invite_state (env_at cp pt t) sess body st (ua b)) = sipSends (ua b) @ new"
    "\<not> is_uas (env_at cp pt t) \<longrightarrow> list_all (list_all (\<lambda>a. \<forall>x. a \<noteq> Send_Received x)) new" by blast
  then show "no_received (ua (b\<lparr> ua := invite_state (env_at cp pt t) sess body st (ua b) \<rparr>))"
    using n u by (simp add: no_received_def is_uas_def)
qed (simp_all add: ua_okD [OF ok] invite_state_report)

lemma do_send_frame:
  assumes "do_send a s = Some s'"
  shows "\<exists>tm cc cv ct. s' = s\<lparr> sdpToMediaChan := tm, callConfirmedChan := cc, callReceivedChan := cv,
    callTerminatedChan := ct \<rparr> \<and> ((\<forall>x. a \<noteq> Send_Received x) \<longrightarrow> cv = callReceivedChan s)"
proof (cases a)
  case (Send_Sdp d)
  then show ?thesis using assms
    by (intro exI [of _ "[d]"] exI [of _ "callConfirmedChan s"] exI [of _ "callReceivedChan s"]
        exI [of _ "callTerminatedChan s"]) (auto split: if_splits)
next
  case (Send_Received x)
  then show ?thesis using assms
    by (intro exI [of _ "sdpToMediaChan s"] exI [of _ "callConfirmedChan s"] exI [of _ "[x]"]
        exI [of _ "callTerminatedChan s"]) (auto split: if_splits)
next
  case (Send_Confirmed x)
  then show ?thesis using assms
    by (intro exI [of _ "sdpToMediaChan s"] exI [of _ "[x]"] exI [of _ "callReceivedChan s"]
        exI [of _ "callTerminatedChan s"]) (auto split: if_splits)
next
  case (Send_Terminated x)
  then show ?thesis using assms
    by (intro exI [of _ "sdpToMediaChan s"] exI [of _ "callConfirmedChan s"] exI [of _ "callReceivedChan s"]
        exI [of _ "[x]"]) (auto split: if_splits)
qed

lemma ua_around_ok:
  assumes role: "valid_profile cp" and ok: "ua_ok cp k b" and st: "ua_around cp (env_at cp pt t) b b'"
  shows "ua_ok cp k b'"
  using st
proof (cases rule: ua_around.cases)
  case (reporter_runs xs r ys)
  show ?thesis
  proof (cases "Role cp = ''uac''")
    case True
    then have n: "xs = []" "ys = []" "\<not> mediaCancel (ua b)"
      using ok reporter_runs(2) by (auto simp: ua_ok_def caller_ok_def)
    show ?thesis using ok True n reporter_runs(2) unfolding reporter_runs(1)
      by (cases r; cases "hangupByMe (ua b)") (simp_all add: on_reporter_def ua_ok_defs)
  next
    case False
    then show ?thesis using ok reporter_runs(2) by (simp add: ua_ok_def callee_ok_def)
  qed
next
  case (stack_calls sess body st)
  then show ?thesis using invite_state_ok [OF ok] by simp
next
  case (stack_sends xs a as ys s)
  from do_send_frame [OF stack_sends(3)] obtain tm cc cv ct where
    s: "s = (ua b)\<lparr> sdpToMediaChan := tm, callConfirmedChan := cc, callReceivedChan := cv,
      callTerminatedChan := ct \<rparr>" and cv: "(\<forall>x. a \<noteq> Send_Received x) \<longrightarrow> cv = callReceivedChan (ua b)" by blast
  show ?thesis unfolding stack_sends(1) s
  proof (rule ua_ok_frame [OF ok])
    assume "no_received (ua b)"
    then show "no_received (ua (b\<lparr> ua := (ua b)\<lparr> sdpToMediaChan := tm, callConfirmedChan := cc,
        callReceivedChan := cv, callTerminatedChan := ct \<rparr>\<lparr> sipSends := xs @ as # ys \<rparr> \<rparr>))"
      using cv unfolding no_received_def stack_sends(2) by simp
  qed (simp_all add: ua_okD [OF ok])
next
  case (media_describes body)
  note b' = media_describes(1) and d = media_describes(2-4)
  have m: "mediaCancel (ua b)" using ok d by (simp add: ua_ok_def media_ok_def)
  show ?thesis
  proof (cases "Role cp = ''uac''")
    case True
    have "currentSession (ua b) = None" "pc (ua b) \<noteq> Await_Media Call_Over"
      using ok d True by (auto simp: ua_ok_def caller_ok_def)
    then show ?thesis using ok d m True by (simp add: b' ua_ok_defs local_type_def)
  next
    case False
    then show ?thesis using ok d m by (simp add: b' ua_ok_defs local_type_def)
  qed
next
  case (media_takes d rest)
  show ?thesis unfolding media_takes(1) by (rule ua_ok_frame [OF ok]) (simp_all add: ua_okD [OF ok] no_received_def)
next
  case (media_logs l)
  show ?thesis unfolding media_logs(1) by (rule ua_ok_frame [OF ok]) (simp_all add: ua_okD [OF ok] no_received_def)
next
  case media_ends
  have "mediaCancel (ua b)" using ok media_ends(2) by (simp add: ua_ok_def media_ok_def)
  then show ?thesis using ok media_ends(2) unfolding media_ends(1)
    by (cases "Role cp = ''uac''") (simp_all add: ua_ok_defs)
next
  case (media_returns e)
  show ?thesis unfolding media_returns(1) by (rule ua_ok_frame [OF ok]) (simp_all add: ua_okD [OF ok] no_received_def)
next
  case (media_error_logged xs e ys)
  show ?thesis unfolding media_error_logged(1)
    by (rule ua_ok_frame [OF ok]) (simp_all add: on_media_error_def ua_okD [OF ok] no_received_def)
next
  case other_agent
  show ?thesis unfolding other_agent by (rule ua_ok_frame [OF ok]) (simp_all add: ua_okD [OF ok] no_received_def)
next
  case main_cancelled
  show ?thesis unfolding main_cancelled by (rule ua_ok_frame [OF ok]) (simp_all add: ua_okD [OF ok] no_received_def)
qed

lemma slot_Returns: "slot xs k = Returns x \<longleftrightarrow> k < length xs \<and> x = xs ! k"
  by (auto simp: slot_def)

lemma and_with_Returns_iff: "and_with m f = Returns b \<longleftrightarrow> (\<exists>a. m = Returns a \<and> f a = Returns b)"
  by (cases m) auto

lemma ua_setup_report:
  "ua_setup listen register cp k = Returns (Ready acc called r) \<Longrightarrow> AccountIndex r = int k \<and> CallResult r = []"
  by (auto simp: ua_setup_def first_report_def and_with_Returns_iff Let_def split: if_splits)

lemma ua_start_ok: "ua_start cp k b \<Longrightarrow> ua_ok cp k b"
  by (auto simp: ua_start_def ua_init_def ua_ok_defs report_of_def dest!: ua_setup_report)

lemma ua_step_ok: "valid_profile cp \<Longrightarrow> ua_ok cp k b \<Longrightarrow> ua_step cp pt b b' \<Longrightarrow> ua_ok cp k b'"
  by (auto simp: ua_step_iff intro: ua_case_ok ua_around_ok)

interpretation agent: invariant_system
  "\<lambda>b. valid_profile cp \<and> ua_start cp k b" "\<lambda>b b'. valid_profile cp \<and> ua_step cp pt b b'" "ua_ok cp k" for cp k pt
  by unfold_locales (auto intro: ua_start_ok ua_step_ok)

definition ua_reach :: "call_profile \<Rightarrow> nat \<Rightarrow> (int \<Rightarrow> string) \<Rightarrow> ua_sys \<Rightarrow> bool" where
  "ua_reach cp k pt =
     reach (\<lambda>b. valid_profile cp \<and> ua_start cp k b) (\<lambda>b b'. valid_profile cp \<and> ua_step cp pt b b')"

lemma ua_reach_ok: "ua_reach cp k pt b \<Longrightarrow> ua_ok cp k b"
  unfolding ua_reach_def by (rule agent.invar_reach)

lemma ua_reach_step: "ua_reach cp k pt b \<Longrightarrow> ua_step cp pt b b' \<Longrightarrow> ua_reach cp k pt b'"
proof -
  assume r: "ua_reach cp k pt b" and s: "ua_step cp pt b b'"
  have "valid_profile cp" using r unfolding ua_reach_def by (induction rule: reach.induct) auto
  then show ?thesis using r s reach_step unfolding ua_reach_def by metis
qed

end
