(* ===== verification/Ua_Properties.thy ===== *)
theory Ua_Properties
  imports Ua_System Dispatch_Progress
begin

text \<open>
  What the user agent promises: its account exists, one media function at a time, the contract the
  dispatcher relies on (as a refinement of an abstract agent), a wait for the media function only
  after its cancellation; and what it does not: a full log channel is a deadlock, and some calls are lost.
\<close>

subsection \<open>Samples\<close>

definition sample_account_report :: call_report where
  "sample_account_report = \<lparr> CallIndex = 0, Account = ''100'', AccountIndex = 0, RemoteAccount = ''200'',
     CallStartTime = 0, CallEndTime = 0, CallID = [], CallResult = [], Logs = [] \<rparr>"

definition sample_ua :: ua_sys where
  "sample_ua = \<lparr> ua = ua_init sample_account_report, media = No_Media, mediaResult = None, offered = False, started = 0,
     lastIndex = 0, mainDone = False \<rparr>"

lemma sample_role: "Role sample_parsed = ''uac''"
  by (simp add: sample_parsed_def sample_profile_def)

lemma sample_setup: "\<exists>acc called. ua_setup (\<lambda>_. True) (\<lambda>_. 200) sample_parsed 0 = Returns (Ready acc called sample_account_report)"
proof -
  have "InternalAccounts sample_parsed = [''100'', ''101'', ''102'']"
    "InternalPasswords sample_parsed = [''pw'', ''pw'', ''pw'']"
    "InternalCalledParties sample_parsed = [''200'', ''201'', ''202'']"
    "InternalLocalPorts sample_parsed = [''0'', ''0'', ''0'']"
    by (simp_all add: sample_parsed_def)
  then show ?thesis by (simp add: ua_setup_def account_of_def first_report_def called_uri_def slot_def sample_role
        sample_account_report_def)
qed

lemma sample_ua_reach: "ua_reach sample_parsed 0 pt sample_ua"
  using sample_setup sample_valid unfolding ua_reach_def
  by (intro reach_init) (fastforce simp: ua_start_def sample_agents sample_ua_def)

subsection \<open>The account\<close>

text \<open>
  For an accepted profile every user agent the main program starts finds its account, its
  password, its port and (calling) its called party: no index is out of range, whether listening
  and registering succeed or not; an agent that gets ready reports under its own account and index.
\<close>

theorem account_in_range:
  assumes "valid_profile cp" and "k < agents_of cp"
  shows "\<exists>boot. ua_setup listen register cp k = Returns boot \<and>
    (\<forall>acc called r. boot = Ready acc called r \<longrightarrow> authUser acc = InternalAccounts cp ! k \<and>
       authPassword acc = InternalPasswords cp ! k \<and>
       Account r = InternalAccounts cp ! k \<and> AccountIndex r = int k)"
proof -
  have "k < length (InternalAccounts cp)" using assms by (auto simp: valid_profile_def agents_of_def)
  then show ?thesis using assms(1)
    by (auto simp: ua_setup_def account_of_def first_report_def called_uri_def slot_def valid_profile_def Let_def)
qed

theorem account_in_range_witness:
  "\<exists>boot. ua_setup (\<lambda>a. a \<noteq> []) (\<lambda>_. 404) sample_parsed 1 = Returns boot"
proof -
  have "1 < agents_of sample_parsed" by (simp add: sample_agents)
  from account_in_range [OF sample_valid this] show ?thesis by blast
qed

subsection \<open>One media function at a time\<close>

lemma other_starts: "ua_around cp env b b' \<Longrightarrow> mediaStarts (ua b') = mediaStarts (ua b)"
proof (induction rule: ua_around.induct)
  case (reporter_runs b xs r ys)
  then show ?case by (cases r) (simp_all add: on_reporter_def)
next
  case (stack_sends b xs a as ys s)
  from do_send_frame [OF stack_sends(2)] show ?case by auto
qed (simp_all add: on_media_error_def)

lemma case_starts [simp]:
  "mediaStarts (on_main_done s) = mediaStarts s"
  "mediaStarts (on_local_sdp env invited d s) = mediaStarts s"
  "mediaStarts (on_confirmed env s) = mediaStarts s"
  "mediaStarts (finish_call env s) = mediaStarts s"
  "mediaStarts (on_duration env s) = mediaStarts s"
  "mediaStarts (on_log env l s) = mediaStarts s"
  by (simp_all add: on_main_done_def cancel_and_wait_def ua_exit_def on_local_sdp_def on_confirmed_def finish_call_def
      on_duration_def on_log_def Let_def split: option.split)

lemma end_starts [simp]:
  "mediaStarts (on_terminated env sess s) = mediaStarts s"
  "mediaStarts (on_media_end env why s) = mediaStarts s"
  "mediaStarts (on_media_error env e r s) = mediaStarts s"
  by (simp_all add: on_terminated_def cancel_and_wait_def on_media_error_def on_media_end_def ua_exit_def Let_def split: option.split stop_reason.split)

text \<open>
  C17. A media function is started only when none runs and none has left its end unread: at the
  moment of any step that starts one there is no media function, and afterwards exactly one runs.
\<close>

theorem one_media_function:
  assumes "ua_reach cp k pt b" and "ua_step cp pt b b'" and "mediaStarts (ua b') \<noteq> mediaStarts (ua b)"
  shows "media b = No_Media \<and> mediaFuncEndChan (ua b) = 0 \<and> mediaStarts (ua b') = mediaStarts (ua b) + 1 \<and>
    media b' = Media_Running"
proof -
  have ok: "ua_ok cp k b" using assms(1) by (rule ua_reach_ok)
  obtain t where "ua_case cp (env_at cp pt t) b b'"
    using assms(2,3) other_starts by (auto simp: ua_step_iff)
  then show ?thesis
  proof (cases rule: ua_case.cases)
    case (start_call_case idx)
    then have n: "\<not> mediaCancel (ua b)" using ok by (auto simp: ua_ok_def caller_ok_def)
    then show ?thesis using ok start_call_case assms(3)
      by (simp add: on_start_call_def start_media_def new_call_def after_case_def ua_ok_def media_ok_def
          contexts_ok_def session_ok_def Let_def)
  next
    case (received_case sess rest)
    have r: "Role cp \<noteq> ''uac''" using ok received_case(3) by (auto simp: ua_ok_def caller_ok_def)
    have n: "currentSession (ua b) = None"
      using assms(3) received_case by (auto simp: on_received_def Let_def split: option.splits if_splits)
    then have "\<not> mediaCancel (ua b)" using ok r received_case(2) by (auto simp: ua_ok_def callee_ok_def)
    then show ?thesis using ok n received_case(1,2)
      by (simp add: on_received_def start_media_def new_call_def after_case_def ua_ok_def media_ok_def Let_def)
  qed (use assms(3) in simp_all)
qed

definition sample_calling :: "(int \<Rightarrow> string) \<Rightarrow> ua_sys" where
  "sample_calling pt = (after_case (on_start_call (env_at sample_parsed pt 5) 7 (ua sample_ua)) sample_ua)
     \<lparr> started := 1, lastIndex := 7 \<rparr>"

lemma sample_calling_step: "ua_step sample_parsed pt sample_ua (sample_calling pt)"
proof -
  have "ua_case sample_parsed (env_at sample_parsed pt 5) sample_ua
      ((after_case (on_start_call (env_at sample_parsed pt 5) 7 (ua sample_ua)) sample_ua)
        \<lparr> started := started sample_ua + 1, lastIndex := 7 \<rparr>)"
    by (rule start_call_case) (simp_all add: sample_ua_def ua_init_def sample_role)
  then show ?thesis by (auto simp: sample_calling_def sample_ua_def intro: by_case)
qed

lemma sample_calling_starts: "mediaStarts (ua (sample_calling pt)) = 1"
  by (simp add: sample_calling_def on_start_call_def start_media_def new_call_def sample_ua_def ua_init_def Let_def)

theorem one_media_function_witness:
  "media sample_ua = No_Media \<and> media (sample_calling (\<lambda>_. ''t'')) = Media_Running"
proof -
  have "mediaStarts (ua (sample_calling (\<lambda>_. ''t''))) \<noteq> mediaStarts (ua sample_ua)"
    using sample_calling_starts by (simp add: sample_ua_def ua_init_def)
  from one_media_function [OF sample_ua_reach sample_calling_step this] show ?thesis by simp
qed

subsection \<open>The contract with the dispatcher\<close>

text \<open>
  The abstract agent: the call it has, if any, and the reports it made. It takes a call when it
  has none, and reports a call it has, once, under the number it was given and its own index. These
  are the steps \<open>take_call\<close> and \<open>report_call\<close> of the dispatcher's system.
\<close>

inductive agent_spec :: "nat \<Rightarrow> int option \<times> call_report list \<Rightarrow> int option \<times> call_report list \<Rightarrow> bool"
  for k :: nat where
  agent_stays: "agent_spec k a a"
| agent_takes: "agent_spec k (None, rs) (Some c, rs)"
| agent_reports: "CallIndex r = c \<Longrightarrow> report_of k r \<Longrightarrow> agent_spec k (Some c, rs) (None, rs @ [r])"

definition abs_agent :: "ua_sys \<Rightarrow> int option \<times> call_report list" where
  "abs_agent b = (if started b = length (reported (ua b)) then None else Some (lastIndex b), reported (ua b))"

lemma case_reported [simp]:
  "reported (on_main_done s) = reported s"
  "reported (on_start_call env idx s) = reported s"
  "reported (on_local_sdp env invited d s) = reported s"
  "reported (on_confirmed env s) = reported s"
  "reported (on_duration env s) = reported s"
  "reported (on_log env l s) = reported s"
  "is_uac env \<Longrightarrow> reported (finish_call env s) = reported s"
  by (simp_all add: on_main_done_def cancel_and_wait_def ua_exit_def on_start_call_def start_media_def new_call_def
      on_local_sdp_def on_confirmed_def finish_call_def on_duration_def on_log_def Let_def split: option.split)

lemma end_reported [simp]:
  "is_uac env \<Longrightarrow> reported (on_terminated env sess s) = reported s"
  "is_uac env \<Longrightarrow> reported (on_media_end env why s) = reported s"
  "reported (on_media_error env e r s) = reported s"
  by (simp_all add: on_terminated_def cancel_and_wait_def on_media_error_def on_media_end_def ua_exit_def Let_def split: option.split stop_reason.split)

lemma same_agent:
  "reported (ua b') = reported (ua b) \<Longrightarrow> started b' = started b \<Longrightarrow> lastIndex b' = lastIndex b \<Longrightarrow>
     agent_spec k (abs_agent b) (abs_agent b')"
  by (simp add: abs_agent_def agent_stays)

lemma agent_step_refines:
  assumes "ua_reach cp k pt b" and "Role cp = ''uac''" and "ua_step cp pt b b'"
  shows "agent_spec k (abs_agent b) (abs_agent b')"
proof -
  have c: "caller_ok b" and r: "report_of k (cr (ua b))"
    using ua_reach_ok [OF assms(1)] assms(2) by (simp_all add: ua_ok_def reports_ok_def)
  have uac: "is_uac (env_at cp pt t)" for t using assms(2) by (simp add: is_uac_def)
  from assms(3) show ?thesis
  proof (cases rule: ua_step.cases)
    case (by_case t)
    then show ?thesis
    proof (cases rule: ua_case.cases)
      case (start_call_case idx)
      then have "abs_agent b = (None, reported (ua b))" "abs_agent b' = (Some idx, reported (ua b))"
        by (simp_all add: abs_agent_def)
      then show ?thesis by (simp add: agent_takes)
    next
      case (received_case sess rest)
      then show ?thesis using c by (simp add: caller_ok_def)
    qed (auto intro!: same_agent simp: uac)
  next
    case (by_other t)
    then show ?thesis
    proof (cases rule: ua_around.cases)
      case (reporter_runs xs q ys)
      have s: "started b = length (reported (ua b)) + 1" "CallIndex (cr (ua b)) = lastIndex b"
        using c reporter_runs(2) by (auto simp: caller_ok_def)
      have a: "abs_agent b = (Some (lastIndex b), reported (ua b))" using s(1) by (simp add: abs_agent_def)
      have "reported (ua b') = reported (ua b) \<or> reported (ua b') = reported (ua b) @ [cr (ua b)]"
        unfolding reporter_runs(1) by (cases q) (simp_all add: on_reporter_def)
      then show ?thesis
      proof
        assume "reported (ua b') = reported (ua b)"
        then show ?thesis by (rule same_agent) (simp_all add: reporter_runs(1))
      next
        assume "reported (ua b') = reported (ua b) @ [cr (ua b)]"
        then have "abs_agent b' = (None, reported (ua b) @ [cr (ua b)])"
          using s(1) by (simp add: abs_agent_def reporter_runs(1))
        then show ?thesis using a s(2) r agent_reports [of "cr (ua b)" "lastIndex b" k] by simp
      qed
    next
      case (stack_sends xs a as ys s)
      from do_send_frame [OF stack_sends(3)] show ?thesis
        by (intro same_agent) (auto simp: stack_sends(1))
    qed (auto intro!: same_agent)
  qed
qed

text \<open>
  C6. The user agent of a caller refines the abstract agent: every step of its system is a step
  of the abstract one or none. So a call that was started is reported at most once, under its own
  number and the agent's index, with one of the three results the dispatcher counts.
\<close>

theorem caller_refines_agent:
  assumes "ua_reach cp k pt b" and "Role cp = ''uac''" and "ua_step cp pt b b'"
  shows "agent_spec k (abs_agent b) (abs_agent b')"
  using assms by (rule agent_step_refines)

theorem caller_refines_agent_witness:
  "agent_spec 0 (None, []) (abs_agent (sample_calling (\<lambda>_. ''t'')))"
proof -
  have "abs_agent sample_ua = (None, [])" by (simp add: abs_agent_def sample_ua_def ua_init_def)
  then show ?thesis
    using caller_refines_agent [OF sample_ua_reach sample_role sample_calling_step, of "\<lambda>_. ''t''"] by simp
qed

subsection \<open>Waiting for the media function\<close>


lemma sample_calling_fields:
  "pc (ua (sample_calling pt)) = At_Select" "mediaCancel (ua (sample_calling pt))"
  "currentSession (ua (sample_calling pt)) = None" "logChan (ua (sample_calling pt)) = []"
  "media (sample_calling pt) = Media_Running" "sdpFromMediaChan (ua (sample_calling pt)) = []"
  "reporters (ua (sample_calling pt)) = []" "reported (ua (sample_calling pt)) = []"
  "mediaFuncEndChan (ua (sample_calling pt)) = 0"
  by (simp_all add: sample_calling_def on_start_call_def start_media_def new_call_def after_case_def
      sample_ua_def ua_init_def Let_def)

lemma sample_calling_reach: "ua_reach sample_parsed 0 pt (sample_calling pt)"
  using ua_reach_step [OF sample_ua_reach sample_calling_step] .

lemma sample_stopping:
  "\<exists>b. ua_reach sample_parsed 0 pt b \<and> pc (ua b) = Await_Media Main_Done \<and> logChan (ua b) = [] \<and>
     media b = Media_Running \<and> mediaFuncEndChan (ua b) = 0"
proof -
  let ?b1 = "(sample_calling pt)\<lparr> mainDone := True \<rparr>"
  let ?b2 = "after_case (on_main_done (ua ?b1)) ?b1"
  have "ua_step sample_parsed pt (sample_calling pt) ?b1" by (intro by_other main_cancelled)
  with sample_calling_reach have r: "ua_reach sample_parsed 0 pt ?b1" by (rule ua_reach_step)
  have "ua_step sample_parsed pt ?b1 ?b2"
    by (rule by_case [where t = 0], rule main_done_case) (simp_all add: sample_calling_fields)
  with r have "ua_reach sample_parsed 0 pt ?b2" by (rule ua_reach_step)
  then show ?thesis
    by (intro exI [of _ ?b2])
      (simp add: on_main_done_def cancel_and_wait_def after_case_def sample_calling_fields Let_def)
qed

lemma sample_stopped:
  "\<exists>b. ua_reach sample_parsed 0 pt b \<and> pc (ua b) = Await_Media Main_Done \<and> media b = Media_Ended"
proof -
  obtain b where b: "ua_reach sample_parsed 0 pt b" "pc (ua b) = Await_Media Main_Done" "logChan (ua b) = []"
    "media b = Media_Running" using sample_stopping by blast
  let ?b = "b\<lparr> ua := (ua b)\<lparr> logChan := logChan (ua b) @ [''MediaFunc exits''],
      mediaFuncEndChan := mediaFuncEndChan (ua b) + 1,
      mediaErrors := mediaErrors (ua b) @ (case mediaResult b of None \<Rightarrow> [] | Some e \<Rightarrow> [e]) \<rparr>, media := Media_Ended \<rparr>"
  have "ua_step sample_parsed pt b ?b"
    by (rule by_other [where t = 0], rule media_ends) (simp_all add: b(3,4))
  with b(1) have "ua_reach sample_parsed 0 pt ?b" by (rule ua_reach_step)
  then show ?thesis using b(2) by (intro exI [of _ ?b]) simp
qed


text \<open>
  The media function cannot log, nor end, while the log channel is full, and only the agent empties
  the channel.
\<close>

definition log_stuck :: "stop_reason \<Rightarrow> ua_sys \<Rightarrow> bool" where
  "log_stuck why b = (pc (ua b) = Await_Media why \<and> media b = Media_Running \<and>
     mediaFuncEndChan (ua b) = 0 \<and> 50 \<le> length (logChan (ua b)))"

lemma log_stuck_step: "log_stuck why b \<Longrightarrow> ua_step cp pt b b' \<Longrightarrow> log_stuck why b'"
proof -
  assume l: "log_stuck why b" and s: "ua_step cp pt b b'"
  from s show "log_stuck why b'"
  proof (cases rule: ua_step.cases)
    case (by_case t)
    then show ?thesis using l by (cases rule: ua_case.cases) (simp_all add: log_stuck_def)
  next
    case (by_other t)
    then show ?thesis
    proof (cases rule: ua_around.cases)
      case (reporter_runs xs r ys)
      then show ?thesis using l by (cases r) (simp_all add: log_stuck_def on_reporter_def)
    next
      case (stack_sends xs a as ys s)
      from do_send_frame [OF stack_sends(3)] show ?thesis using l by (auto simp: log_stuck_def stack_sends(1))
    qed (use l in \<open>simp_all add: log_stuck_def on_media_error_def\<close>)
  qed
qed

text \<open>
  C20. A full log channel is a deadlock: when the agent waits for its media function, which has not
  told its end yet, and the channel it logs to has no room left, the agent waits for ever, whatever
  happens. (The media function logs a last line before it tells its end, and the waiting agent
  does not read the channel, before or after the cancellation.)
\<close>

theorem full_log_channel_deadlocks:
  assumes "pc (ua b) = Await_Media why" and "media b = Media_Running" and "mediaFuncEndChan (ua b) = 0"
    and "50 \<le> length (logChan (ua b))" and "(ua_step cp pt)\<^sup>*\<^sup>* b b'"
  shows "pc (ua b') = Await_Media why \<and> media b' = Media_Running \<and> 50 \<le> length (logChan (ua b'))"
proof -
  have "log_stuck why b'"
    using assms(5)
  proof (induction rule: rtranclp_induct)
    case base
    show ?case using assms(1-4) by (simp add: log_stuck_def)
  qed (rule log_stuck_step)
  then show ?thesis by (simp add: log_stuck_def)
qed

lemma sample_logging:
  "n \<le> 50 \<Longrightarrow> \<exists>b. ua_reach sample_parsed 0 pt b \<and> pc (ua b) = Await_Media Main_Done \<and> media b = Media_Running \<and>
     mediaFuncEndChan (ua b) = 0 \<and> length (logChan (ua b)) = n"
proof (induction n)
  case 0
  then show ?case using sample_stopping [of pt] by fastforce
next
  case (Suc n)
  then obtain b where b: "ua_reach sample_parsed 0 pt b" "pc (ua b) = Await_Media Main_Done" "media b = Media_Running"
    "mediaFuncEndChan (ua b) = 0" "length (logChan (ua b)) = n" by auto
  let ?b = "b\<lparr> ua := (ua b)\<lparr> logChan := logChan (ua b) @ [''ICE gathering got one''] \<rparr> \<rparr>"
  have "ua_step sample_parsed pt b ?b"
    using b(5) Suc.prems by (intro by_other [where t = 0] media_logs) simp
  with b(1) have "ua_reach sample_parsed 0 pt ?b" by (rule ua_reach_step)
  then show ?case using b by (intro exI [of _ ?b]) simp
qed

theorem full_log_channel_deadlocks_witness:
  "\<exists>b. ua_reach sample_parsed 0 (\<lambda>_. ''t'') b \<and>
     (\<forall>b'. (ua_step sample_parsed (\<lambda>_. ''t''))\<^sup>*\<^sup>* b b' \<longrightarrow> pc (ua b') = Await_Media Main_Done)"
proof -
  obtain b where b: "ua_reach sample_parsed 0 (\<lambda>_. ''t'') b" "pc (ua b) = Await_Media Main_Done" "media b = Media_Running"
    "mediaFuncEndChan (ua b) = 0" "length (logChan (ua b)) = 50" using sample_logging [of 50] by auto
  have "50 \<le> length (logChan (ua b))" using b(5) by simp
  from full_log_channel_deadlocks [OF b(2-4) this] b(1) show ?thesis by blast
qed

subsection \<open>Calls that are lost\<close>

text \<open>A caller's call without a session, and with no offer left that could make one.\<close>

definition lost :: "call_profile \<Rightarrow> call_report list \<Rightarrow> ua_sys \<Rightarrow> bool" where
  "lost cp rs b = (Role cp = ''uac'' \<and> currentSession (ua b) = None \<and> sdpFromMediaChan (ua b) = [] \<and>
     (media b = Media_Running \<longrightarrow> offered b) \<and> started b = length rs + 1 \<and> mediaCancel (ua b) \<and>
     reporters (ua b) = [] \<and> reported (ua b) = rs \<and> pc (ua b) \<noteq> Await_Media Call_Over)"

lemma lost_case:
  assumes "ua_ok cp k b" and l: "lost cp rs b" and "ua_case cp env b b'"
  shows "lost cp rs b'"
  using assms(3)
proof (cases rule: ua_case.cases)
  case main_done_case
  then show ?thesis using l by (simp add: lost_def on_main_done_def cancel_and_wait_def after_case_def Let_def)
next
  case (start_call_case idx)
  have "started b \<noteq> length (reported (ua b))" using l by (auto simp: lost_def)
  then show ?thesis using start_call_case by simp
next
  case (local_sdp_case sdp rest invited)
  then show ?thesis using l by (simp add: lost_def)
next
  case (confirmed_case sess rest)
  then show ?thesis using l by (simp add: lost_def on_confirmed_def after_case_def)
next
  case (received_case sess rest)
  then show ?thesis using assms(1) l by (simp add: ua_ok_def caller_ok_def lost_def)
next
  case (terminated_case sess rest)
  then show ?thesis using l by (simp add: lost_def on_terminated_def after_case_def)
next
  case duration_case
  then show ?thesis using l by (simp add: lost_def on_duration_def after_case_def Let_def)
next
  case (log_case l rest)
  then show ?thesis using l by (simp add: lost_def on_log_def after_case_def)
next
  case (media_end_receive why)
  then have "why = Main_Done" using l by (cases why) (simp_all add: lost_def)
  then show ?thesis using media_end_receive l
    by (simp add: lost_def on_media_end_def ua_exit_def after_case_def Let_def)
qed

lemma lost_around: "lost cp rs b \<Longrightarrow> ua_around cp env b b' \<Longrightarrow> lost cp rs b'"
proof (erule ua_around.cases)
  fix c xs a as ys s
  assume "lost cp rs b" "b = c" "b' = c\<lparr> ua := s\<lparr> sipSends := xs @ as # ys \<rparr> \<rparr>" "do_send a (ua c) = Some s"
  with do_send_frame [OF this(4)] show "lost cp rs b'" by (auto simp: lost_def)
qed (auto simp: lost_def on_media_error_def)

lemma lost_star:
  assumes "(ua_step cp pt)\<^sup>*\<^sup>* b b'" and "ua_reach cp k pt b" and "lost cp rs b"
  shows "lost cp rs b' \<and> ua_reach cp k pt b'"
  using assms
proof (induction rule: rtranclp_induct)
  case (step b1 b2)
  have ih: "lost cp rs b1" "ua_reach cp k pt b1" using step.IH step.prems by blast+
  have "lost cp rs b2"
    using step.hyps(2)
  proof (cases rule: ua_step.cases)
    case (by_case t)
    then show ?thesis using lost_case [OF ua_reach_ok [OF ih(2)] ih(1)] by blast
  next
    case (by_other t)
    then show ?thesis using lost_around [OF ih(1)] by blast
  qed
  then show ?case using ua_reach_step [OF ih(2) step.hyps(2)] by blast
qed simp

text \<open>
  C29. A caller's call that has no session and no offer left to make one is lost: whatever happens
  afterwards it is never reported, so the dispatcher waits for it for ever. This is the state after
  \<^verbatim>\<open>ua.Invite\<close> or the media function failed, where the code has no error handling.
\<close>

theorem call_without_session_lost:
  assumes "ua_reach cp k pt b" and "Role cp = ''uac''" and "mediaCancel (ua b)"
    and "currentSession (ua b) = None" and "sdpFromMediaChan (ua b) = []"
    and "media b = Media_Running \<longrightarrow> offered b" and "pc (ua b) = At_Select"
    and "(ua_step cp pt)\<^sup>*\<^sup>* b b'"
  shows "reported (ua b') = reported (ua b) \<and> reporters (ua b') = [] \<and> started b' = length (reported (ua b')) + 1"
proof -
  have "lost cp (reported (ua b)) b"
    using ua_reach_ok [OF assms(1)] assms(2-7) by (simp add: ua_ok_def caller_ok_def lost_def)
  from lost_star [OF assms(8,1) this] show ?thesis by (simp add: lost_def)
qed

theorem call_without_session_lost_witness:
  "\<exists>b. media b = Media_Ended \<and> started b = 1 \<and>
     (\<forall>b'. (ua_step sample_parsed (\<lambda>_. ''t''))\<^sup>*\<^sup>* b b' \<longrightarrow> reported (ua b') = [])"
proof -
  let ?pt = "\<lambda>_. ''t''" and ?a = "sample_calling (\<lambda>_. ''t'')"
  let ?b = "?a\<lparr> ua := (ua ?a)\<lparr> logChan := logChan (ua ?a) @ [''MediaFunc exits''],
      mediaFuncEndChan := mediaFuncEndChan (ua ?a) + 1,
      mediaErrors := mediaErrors (ua ?a) @ (case mediaResult ?a of None \<Rightarrow> [] | Some e \<Rightarrow> [e]) \<rparr>, media := Media_Ended \<rparr>"
  have "ua_step sample_parsed ?pt ?a ?b"
    by (rule by_other [where t = 0], rule media_ends) (simp_all add: sample_calling_fields)
  with sample_calling_reach have r: "ua_reach sample_parsed 0 ?pt ?b" by (rule ua_reach_step)
  have "reported (ua b') = []" if "(ua_step sample_parsed ?pt)\<^sup>*\<^sup>* ?b b'" for b'
    using call_without_session_lost [OF r sample_role _ _ _ _ _ that] by (simp add: sample_calling_fields)
  moreover have "started ?b = 1" by (simp add: sample_calling_def)
  ultimately show ?thesis by (intro exI [of _ ?b]) simp
qed

end
