(* ===== verification/Media_Callbacks.thy ===== *)
theory Media_Callbacks
  imports Media_Setup Audio_Ingester
begin

text \<open>
  The callbacks a call registers with its connection and the goroutines that play and read while it
  is up (\<^verbatim>\<open>src/rtc/media.go\<close>): how the states of the connection reach the two contexts that
  everything waits for, and when a worker starts and ends.
\<close>

subsection \<open>The callbacks\<close>

record conn =
  ctxDone :: bool
  pcDone :: bool
  iceDone :: bool
  connLog :: "string list"

datatype pc_state = Pc_New | Pc_Connecting | Pc_Connected | Pc_Disconnected | Pc_Failed | Pc_Closed

fun pc_state_text :: "pc_state \<Rightarrow> string" where
  "pc_state_text Pc_New = ''new''"
| "pc_state_text Pc_Connecting = ''connecting''"
| "pc_state_text Pc_Connected = ''connected''"
| "pc_state_text Pc_Disconnected = ''disconnected''"
| "pc_state_text Pc_Failed = ''failed''"
| "pc_state_text Pc_Closed = ''closed''"

definition log_conn :: "string \<Rightarrow> conn \<Rightarrow> conn" where
  "log_conn l s = s\<lparr> connLog := connLog s @ [l] \<rparr>"

text \<open>The gathering of candidates ends with a nil candidate.\<close>

definition on_ice_candidate :: "string option \<Rightarrow> conn \<Rightarrow> conn" where
  "on_ice_candidate candidate s =
     (case candidate of
        None \<Rightarrow> (log_conn ''ICE gathering done'' s)\<lparr> iceDone := True \<rparr>
      | Some c \<Rightarrow> log_conn (''ICE gathering got one '' @ c) s)"

definition on_connection_state :: "pc_state \<Rightarrow> conn \<Rightarrow> conn" where
  "on_connection_state state s =
     (let s1 = log_conn (''PC state '' @ pc_state_text state) s;
          s2 = (if state = Pc_Connected then s1\<lparr> pcDone := True \<rparr> else s1)
      in if state = Pc_Failed \<or> state = Pc_Closed then
           (if ctxDone s2 then s2
            else (log_conn (''Close for PC state '' @ pc_state_text state) s2)\<lparr> ctxDone := True \<rparr>)
         else s2)"

text \<open>The callbacks that only log: ICE, signaling, and the DTLS transport of each sender.\<close>

definition on_ice_state :: "string \<Rightarrow> conn \<Rightarrow> conn" where
  "on_ice_state state = log_conn (''ICE state '' @ state)"

definition on_signaling_state :: "string \<Rightarrow> conn \<Rightarrow> conn" where
  "on_signaling_state state = log_conn (''Signaling state '' @ state)"

definition on_dtls_state :: "codec_kind \<Rightarrow> string \<Rightarrow> conn \<Rightarrow> conn" where
  "on_dtls_state kind state =
     log_conn ((case kind of Video_Kind \<Rightarrow> ''Video'' | Audio_Kind \<Rightarrow> ''Audio'') @ '' DTLS state '' @ state)"

lemma log_conn_frame [simp]:
  "ctxDone (log_conn l s) = ctxDone s" "pcDone (log_conn l s) = pcDone s" "iceDone (log_conn l s) = iceDone s"
  by (simp_all add: log_conn_def)

lemma on_connection_state_contexts [simp]:
  "ctxDone (on_connection_state st s) = (ctxDone s \<or> st \<in> {Pc_Failed, Pc_Closed})"
  "pcDone (on_connection_state st s) = (pcDone s \<or> st = Pc_Connected)"
  "iceDone (on_connection_state st s) = iceDone s"
  by (auto simp: on_connection_state_def Let_def)

text \<open>
  After any sequence of states the call is cancelled exactly when the connection failed or was
  closed (or it was cancelled before), and its workers may start exactly when it was connected.
\<close>

lemma connection_states:
  "ctxDone (fold on_connection_state sts s) = (ctxDone s \<or> Pc_Failed \<in> set sts \<or> Pc_Closed \<in> set sts) \<and>
   pcDone (fold on_connection_state sts s) = (pcDone s \<or> Pc_Connected \<in> set sts)"
  by (induction sts arbitrary: s) auto

subsection \<open>The workers\<close>

text \<open>What a worker's \<^verbatim>\<open>select\<close> finds first: the end of the context or the connection.\<close>

datatype woken = By_Context | By_Connection

text \<open>
  The goroutine that asks the sender of a video track for key frames: one full intra request, then a
  picture loss indication at each of the timer's ticks before the context is done.
\<close>

datatype key_frame_request = Full_Intra "32 word" | Picture_Loss "32 word"

definition key_frame_requests :: "codec_kind \<Rightarrow> 32 word \<Rightarrow> nat \<Rightarrow> key_frame_request list \<times> string list" where
  "key_frame_requests kind ssrc ticks =
     (if kind = Audio_Kind then ([], [])
      else (Full_Intra ssrc # replicate ticks (Picture_Loss ssrc), [''Pli sender exits'']))"

text \<open>
  A reader of RTCP packets discards what it reads, until a read fails or the context is done;
  \<open>rs\<close> are the results of its reads while the context is alive. The result: the lines it logs, the
  reads it made.
\<close>

fun reads_made :: "bool list \<Rightarrow> nat" where
  "reads_made [] = 0"
| "reads_made (ok # rs) = (if ok then 1 + reads_made rs else 1)"

definition reader_worker :: "string \<Rightarrow> string \<Rightarrow> bool \<Rightarrow> woken \<Rightarrow> bool list \<Rightarrow> string list \<times> nat" where
  "reader_worker starts exits present w rs =
     (if \<not> present then ([], 0)
      else (case w of
          By_Context \<Rightarrow> ([exits], 0)
        | By_Connection \<Rightarrow> ([starts, exits], reads_made rs)))"

definition audio_reader :: "bool \<Rightarrow> woken \<Rightarrow> bool list \<Rightarrow> string list \<times> nat" where
  "audio_reader = reader_worker ''PC(ICE+DTLS+SRTP) done, start to read audio packets'' ''Audio reader exits''"

definition video_reader :: "bool \<Rightarrow> woken \<Rightarrow> bool list \<Rightarrow> string list \<times> nat" where
  "video_reader = reader_worker ''PC(ICE+DTLS+SRTP) done, start to read video packets'' ''Video reader exits''"

text \<open>
  An ingester's worker: the rounds of \<open>ingest_rounds\<close>, none when the context was done first, and the
  lines it logs. \<open>ctx\<close> is the number of the loop's tests that find the context alive, \<open>text_of\<close> the
  text of an error; the lines depend on how the rounds ended only.
\<close>

definition ingester_lines ::
  "string \<Rightarrow> string \<Rightarrow> string \<Rightarrow> bool \<Rightarrow> woken \<Rightarrow> string option outcome \<Rightarrow> string list outcome" where
  "ingester_lines starts fails exits present w rounds =
     (if \<not> present then Returns []
      else (case w of
          By_Context \<Rightarrow> Returns [exits]
        | By_Connection \<Rightarrow>
            (case rounds of
               Panics \<Rightarrow> Panics
             | Returns err \<Rightarrow> Returns ([starts] @ (case err of None \<Rightarrow> [] | Some l \<Rightarrow> [fails @ l]) @ [exits]))))"

definition ingest_worker ::
  "string \<Rightarrow> string \<Rightarrow> string \<Rightarrow> ('io ingest_error \<Rightarrow> string) \<Rightarrow>
   ('st \<Rightarrow> ('io ingest_error \<times> 'st) outcome) \<Rightarrow> (nat \<Rightarrow> bool) \<Rightarrow> bool \<Rightarrow> woken \<Rightarrow> nat \<Rightarrow> 'st \<Rightarrow>
   (string list \<times> 'st) outcome" where
  "ingest_worker starts fails exits text_of ing alive present w ctx st =
     (let run = (if present \<and> w = By_Connection
          then ingest_rounds ing (\<lambda>e. index_of (text_of e) ''Open'' \<noteq> None) alive ctx st
          else Returns (None, st))
      in (case run of
            Panics \<Rightarrow> Panics
          | Returns (err, st1) \<Rightarrow>
              map_outcome (\<lambda>l. (l, st1)) (ingester_lines starts fails exits present w (Returns (map_option text_of err)))))"

definition audio_worker where
  "audio_worker sourceA =
     ingest_worker (''PC(ICE+DTLS+SRTP) done, start to ingest audio '' @ sourceA) ''Ingest audio err '' ''Audio ingester exits''"

definition video_worker where
  "video_worker sourceV =
     ingest_worker (''PC(ICE+DTLS+SRTP) done, start to ingest video '' @ sourceV) ''Ingest video err '' ''Video ingester exits''"

text \<open>Nothing is played before the connection is up; a worker that started says when it exits.\<close>

lemma worker_waits: "ingest_worker a b c text_of ing alive present By_Context n st = Returns (l, st') \<Longrightarrow> st' = st"
  by (auto simp: ingest_worker_def ingester_lines_def split: if_splits)

lemma worker_exits:
  "ingest_worker a b c text_of ing alive True w n st = Returns (l, st') \<Longrightarrow> l \<noteq> [] \<and> last l = c"
  by (auto simp: ingest_worker_def ingester_lines_def Let_def split: woken.splits outcome.splits if_splits)

text \<open>
  The four workers of a call, in the order they are started, as a call sees them: the lines each logs,
  or a panic of one of them, which ends the program. The answers say what woke each one, what its reads
  gave, and how the rounds of the ingesters ended.
\<close>

record worker_answers =
  readsA :: "woken \<times> bool list"
  playA :: "woken \<times> string option outcome"
  readsV :: "woken \<times> bool list"
  playV :: "woken \<times> string option outcome"

definition worker_lines :: "string \<Rightarrow> string \<Rightarrow> bool \<Rightarrow> bool \<Rightarrow> worker_answers \<Rightarrow> string list list outcome" where
  "worker_lines sourceA sourceV hasA hasV r =
     (case ingester_lines (''PC(ICE+DTLS+SRTP) done, start to ingest audio '' @ sourceA) ''Ingest audio err ''
         ''Audio ingester exits'' hasA (fst (playA r)) (snd (playA r)) of
        Panics \<Rightarrow> Panics
      | Returns la \<Rightarrow>
          (case ingester_lines (''PC(ICE+DTLS+SRTP) done, start to ingest video '' @ sourceV) ''Ingest video err ''
              ''Video ingester exits'' hasV (fst (playV r)) (snd (playV r)) of
             Panics \<Rightarrow> Panics
           | Returns lv \<Rightarrow>
               Returns [fst (audio_reader hasA (fst (readsA r)) (snd (readsA r))), la,
                 fst (video_reader hasV (fst (readsV r)) (snd (readsV r))), lv]))"

text \<open>An ingester that ran as modelled gives the lines of its worker.\<close>

lemma ingest_worker_lines:
  "ingest_worker a b c text_of ing alive True By_Connection n st = Returns (l, st') \<Longrightarrow>
     \<exists>err. ingest_rounds ing (\<lambda>e. index_of (text_of e) ''Open'' \<noteq> None) alive n st = Returns (err, st') \<and>
       ingester_lines a b c True By_Connection (Returns (map_option text_of err)) = Returns l"
  by (auto simp: ingest_worker_def ingester_lines_def Let_def split: outcome.splits)

lemma worker_lines_return:
  "snd (playA r) \<noteq> Panics \<Longrightarrow> snd (playV r) \<noteq> Panics \<Longrightarrow> \<exists>ls. worker_lines sa sv a v r = Returns ls"
  by (auto simp: worker_lines_def ingester_lines_def split: outcome.split woken.split)

end
