(* ===== verification/Media.thy ===== *)
theory Media
  imports Call_Report Media_Tracks Media_Callbacks
begin

text \<open>
  The media function of \<^verbatim>\<open>src/rtc/media.go\<close> as a whole: its setup, its negotiation with the user
  agent and its end, with the events it shows to the outside. WebRTC itself is third-party: the
  record \<open>webrtc\<close> holds the answers it gives in one run. The function runs in several threads: its
  own, the callbacks of the connection and of its tracks, the four workers of \<open>Media_Callbacks\<close>, and
  the goroutine that waits for the end of the context and closes the call. Each thread makes a list
  of events, and a run is an interleaving of them, the one the record's schedule says.
\<close>

subsection \<open>One run of the media function\<close>

datatype media_error =
  Create_Pc string | Add_Track_Failed string | Create_Offer string | Create_Answer string |
  Set_Local_Offer string string | Set_Local_Answer string string |
  Set_Remote_Offer string string | Set_Remote_Answer string string

fun media_error_text :: "media_error \<Rightarrow> string" where
  "media_error_text (Create_Pc e) = ''Create PC: '' @ e"
| "media_error_text (Add_Track_Failed e) = ''Add track: '' @ e"
| "media_error_text (Create_Offer e) = ''Create Offer: '' @ e"
| "media_error_text (Create_Answer e) = ''Create Answer: '' @ e"
| "media_error_text (Set_Local_Offer d e) = ''Set local offer '' @ d @ '': '' @ e"
| "media_error_text (Set_Local_Answer d e) = ''Set local answer '' @ d @ '': '' @ e"
| "media_error_text (Set_Remote_Offer d e) = ''Set remote offer '' @ d @ '': '' @ e"
| "media_error_text (Set_Remote_Answer d e) = ''Set remote answer '' @ d @ '': '' @ e"

text \<open>
  What WebRTC and the user agent answer in one run. \<open>None\<close> for the offer or the gathered
  description (a type and a text): the context was done first; the list of remote descriptions ends
  with the context. \<open>localText\<close> is the local description as printed in an error, \<open>arrived\<close> are the tracks that come while the call is up, \<open>callbackLines\<close> what the
  callbacks of the connection log, \<open>workers\<close> how the workers end. \<^verbatim>\<open>doClose\<close> is called by the function
  when it returns and by the goroutine when the context is done; its flag \<^verbatim>\<open>doClosed\<close> is not
  synchronised, so either call may come first, or both may find the flag unset, and then both close,
  or one panics on a sender the other has just set to nil (\<open>close_race\<close>).
\<close>

datatype close_race = Deferred_First | Goroutine_First | Both_Unset | Both_Panic

record webrtc =
  firstOffer :: "(string \<times> string) option"
  engineApi :: engine_api
  pcError :: "ice_config \<Rightarrow> string option"
  addVideo :: "string option"
  addAudio :: "string option"
  createLocal :: "string option"
  setLocal :: "string option"
  localText :: string
  gathered :: "(string \<times> string) option"
  remotes :: "(string \<times> string) list"
  setRemote :: "string \<times> string \<Rightarrow> string option"
  stateText :: string
  arrived :: "track list"
  callbackLines :: "string list"
  workers :: worker_answers
  closeRace :: close_race
  schedule :: "nat list"

record media_flags =
  saveTracks :: bool
  enableAudioLevel :: bool
  enableTWCC :: bool

definition notify_exit :: "media_event list" where
  "notify_exit = [Wait_Workers, Log_Line ''MediaFunc exits'', Tell_End]"

text \<open>
  An interleaving of threads: the schedule names the thread that makes its next event; what is left
  when it ends is made thread by thread. Every interleaving has a schedule.
\<close>

fun interleave :: "nat list \<Rightarrow> 'a list list \<Rightarrow> 'a list" where
  "interleave [] ts = concat ts"
| "interleave (k # ks) ts =
     (if k < length ts then
        (case ts ! k of
           [] \<Rightarrow> interleave ks ts
         | e # es \<Rightarrow> e # interleave ks (ts[k := es]))
      else interleave ks ts)"

lemma concat_pick: "k < length ts \<Longrightarrow> ts ! k = e # es \<Longrightarrow> mset (concat ts) = add_mset e (mset (concat (ts[k := es])))"
proof (induction ts arbitrary: k)
  case (Cons t ts)
  then show ?case by (cases k) auto
qed simp

lemma mset_interleave: "mset (interleave ks ts) = mset (concat ts)"
proof (induction ks ts rule: interleave.induct)
  case (2 k ks ts)
  then show ?case by (auto split: list.split simp: concat_pick)
qed simp

text \<open>The parts the deferred call of \<^verbatim>\<open>doClose\<close> closes, and those the goroutine's call does.\<close>

definition do_closes ::
  "('s, 'o) recorders \<Rightarrow> close_race \<Rightarrow> ('s, 'o) media_parts \<Rightarrow> (part list \<times> part list) outcome" where
  "do_closes st race m =
     (case do_close st m of
        Panics \<Rightarrow> Panics
      | Returns (ps, m1) \<Rightarrow>
          (case race of
             Both_Panic \<Rightarrow> Panics
           | Both_Unset \<Rightarrow> map_outcome (\<lambda>(qs, m2). (ps, qs)) (do_close st (m1\<lparr> doClosed := False \<rparr>))
           | Deferred_First \<Rightarrow> map_outcome (\<lambda>(qs, m2). (ps, qs)) (do_close st m1)
           | Goroutine_First \<Rightarrow> map_outcome (\<lambda>(qs, m2). (qs, ps)) (do_close st m1)))"

text \<open>
  How a run ends: the error, the events of the function's own thread, those of the other threads, and
  what the function does after all of these have ended.
\<close>

type_synonym media_exit = "media_error option \<times> media_event list \<times> media_event list list \<times> media_event list"

text \<open>
  A return while the goroutine runs: the deferred \<^verbatim>\<open>doClose\<close>, and the goroutine's, since closing the
  connection ends the context if it has not ended yet.
\<close>

definition leave ::
  "('s, 'o) recorders \<Rightarrow> close_race \<Rightarrow> media_error option \<Rightarrow> ('s, 'o) media_parts \<Rightarrow> media_event list \<Rightarrow>
   media_exit outcome" where
  "leave st race err m ev =
     map_outcome (\<lambda>(ps, qs). (err, ev @ map Close_Part ps, [map Close_Part qs], [])) (do_closes st race m)"

text \<open>A return before any goroutine was started.\<close>

definition leave_early ::
  "('s, 'o) recorders \<Rightarrow> media_error option \<Rightarrow> ('s, 'o) media_parts \<Rightarrow> media_exit outcome" where
  "leave_early st err m = map_outcome (\<lambda>(ps, m1). (err, map Close_Part ps, [], [])) (do_close st m)"

text \<open>
  The whole run: what came before the threads, their interleaving, the end, and the error it returns,
  which its caller gets with the end.
\<close>

definition finish_run ::
  "webrtc \<Rightarrow> media_event list \<Rightarrow> media_event list list \<Rightarrow> media_exit \<Rightarrow> media_error option \<times> media_event list" where
  "finish_run w pre threads = (\<lambda>(err, own, others, after).
     (err, pre @ interleave (schedule w) (own # others @ threads) @ after @
       (case err of None \<Rightarrow> [] | Some e \<Rightarrow> [Return_Error (media_error_text e)]) @ notify_exit))"

definition log_sdp :: "call_profile \<Rightarrow> string \<Rightarrow> string \<Rightarrow> media_event" where
  "log_sdp cp what sdp = Log_Line (if SdpInCallDetails cp then what @ newline @ sdp else what)"

text \<open>The engine, then the ingesters, then the connection: the error, what is open and the events.\<close>

definition new_connection ::
  "call_profile \<Rightarrow> media_flags \<Rightarrow> webrtc \<Rightarrow> media_plan \<Rightarrow>
   string option \<times> ('s, 'o) media_parts \<times> media_event list" where
  "new_connection cp fl w p =
     (case setup_engine (engineApi w) (AudioFile cp) (enableAudioLevel fl) (enableTWCC fl) of
        Inl e \<Rightarrow> (Some e, no_parts, [])
      | Inr eng \<Rightarrow>
          let m = no_parts\<lparr> vIngester := planVideo p \<noteq> [], aIngester := planAudio p \<noteq> [] \<rparr>;
              ev = (if planAudio p \<noteq> [] then [Open_Part Audio_Ingest] else []) @
                (if planVideo p \<noteq> [] then [Open_Part Video_Ingest] else [])
          in (case pcError w (ice_configuration cp) of
                Some e \<Rightarrow> (Some e, m, ev)
              | None \<Rightarrow> (None, m\<lparr> pcOpen := True \<rparr>, ev @ [Open_Part Peer_Connection])))"

fun wait_for_answer ::
  "call_profile \<Rightarrow> webrtc \<Rightarrow> (string \<times> string) list \<Rightarrow> media_event list \<Rightarrow> (media_error + bool) \<times> media_event list" where
  "wait_for_answer cp w [] ev = (Inr False, ev)"
| "wait_for_answer cp w ((t, sdp) # rest) ev =
     (let sdp1 = edit_remote_sdp sdp; ev1 = ev @ [Take_Sdp (t, sdp), log_sdp cp ''Got answer'' sdp1]
      in (case setRemote w (t, sdp1) of
            Some e \<Rightarrow> (Inl (Set_Remote_Answer sdp1 e), ev1)
          | None \<Rightarrow> if t = ''answer'' then (Inr True, ev1) else wait_for_answer cp w rest ev1))"

text \<open>
  The end of the successful path: the tracks are handled, each with a goroutine that asks for key
  frames, the context is done, its goroutine closes, the function, which waits for all of them,
  returns.
\<close>

definition pli_lines :: "media_flags \<Rightarrow> track list \<Rightarrow> media_event list" where
  "pli_lines fl ts =
     (if saveTracks fl then map Log_Line (concat (map (\<lambda>t. snd (key_frame_requests (trackKind t) 0 0)) ts)) else [])"

definition run_until_done ::
  "('s, 'o) recorders \<Rightarrow> call_profile \<Rightarrow> media_flags \<Rightarrow> webrtc \<Rightarrow> ('s, 'o) media_parts \<Rightarrow> media_event list \<Rightarrow>
   media_exit outcome" where
  "run_until_done st cp fl w m ev =
     (case on_tracks st cp (saveTracks fl) (arrived w) m of
        Panics \<Rightarrow> Panics
      | Returns (m1, ev1) \<Rightarrow>
          (case do_close st m1 of
             Panics \<Rightarrow> Panics
           | Returns (ps, m2) \<Rightarrow>
               map_outcome
                 (\<lambda>(qs, m3). (None, ev @ [Log_Line (''State '' @ stateText w)],
                    [ev1, pli_lines fl (arrived w), map Close_Part ps], Wait_Workers # map Close_Part qs))
                 (do_close st m2)))"

definition caller_negotiates ::
  "('s, 'o) recorders \<Rightarrow> call_profile \<Rightarrow> media_flags \<Rightarrow> webrtc \<Rightarrow> ('s, 'o) media_parts \<Rightarrow> media_exit outcome" where
  "caller_negotiates st cp fl w m =
     (case createLocal w of
        Some e \<Rightarrow> leave st (closeRace w) (Some (Create_Offer e)) m []
      | None \<Rightarrow>
     (case setLocal w of
        Some e \<Rightarrow> leave st (closeRace w) (Some (Set_Local_Offer (localText w) e)) m []
      | None \<Rightarrow>
     (case gathered w of
        None \<Rightarrow> leave st (closeRace w) None m []
      | Some (ty, sdp) \<Rightarrow>
     (case local_sdp (ICEURLs cp) sdp of
        Panics \<Rightarrow> Panics
      | Returns newsdp \<Rightarrow>
          (case wait_for_answer cp w (remotes w) [log_sdp cp ''Offer created'' newsdp, Give_Sdp (ty, newsdp)] of
             (Inl e, ev) \<Rightarrow> leave st (closeRace w) (Some e) m ev
           | (Inr False, ev) \<Rightarrow> leave st (closeRace w) None m ev
           | (Inr True, ev) \<Rightarrow> run_until_done st cp fl w m ev)))))"

definition callee_negotiates ::
  "('s, 'o) recorders \<Rightarrow> call_profile \<Rightarrow> media_flags \<Rightarrow> webrtc \<Rightarrow> string \<times> string \<Rightarrow> string \<Rightarrow>
   ('s, 'o) media_parts \<Rightarrow> media_exit outcome" where
  "callee_negotiates st cp fl w offer kind m =
     (case setRemote w offer of
        Some e \<Rightarrow> leave st (closeRace w) (Some (Set_Remote_Offer (snd offer) e)) m []
      | None \<Rightarrow>
     let ev = [Add_Transceiver (if kind = ''video'' then Video_Kind else Audio_Kind)] in
     (case createLocal w of
        Some e \<Rightarrow> leave st (closeRace w) (Some (Create_Answer e)) m ev
      | None \<Rightarrow>
     (case setLocal w of
        Some e \<Rightarrow> leave st (closeRace w) (Some (Set_Local_Answer (localText w) e)) m ev
      | None \<Rightarrow>
     (case gathered w of
        None \<Rightarrow> leave st (closeRace w) None m ev
      | Some (ty, sdp) \<Rightarrow>
     (case local_sdp (ICEURLs cp) sdp of
        Panics \<Rightarrow> Panics
      | Returns newsdp \<Rightarrow>
          run_until_done st cp fl w m (ev @ [log_sdp cp ''Answer created'' newsdp, Give_Sdp (ty, newsdp)]))))))"

text \<open>From the connection on, for both roles; a panic of a worker ends the program.\<close>

definition with_plan ::
  "('s, 'o) recorders \<Rightarrow> call_profile \<Rightarrow> media_flags \<Rightarrow> webrtc \<Rightarrow> (string \<times> string) option \<Rightarrow> media_plan \<Rightarrow>
   media_event list \<Rightarrow> (media_error option \<times> media_event list) outcome" where
  "with_plan st cp fl w offer p ev =
     (case new_connection cp fl w p of
        (Some e, m, ev1) \<Rightarrow> map_outcome (finish_run w (ev @ ev1) []) (leave_early st (Some (Create_Pc e)) m)
      | (None, m, ev1) \<Rightarrow>
     (case (if vIngester m then addVideo w else None) of
        Some e \<Rightarrow> map_outcome (finish_run w (ev @ ev1) []) (leave_early st (Some (Add_Track_Failed e)) m)
      | None \<Rightarrow>
     (case (if aIngester m then addAudio w else None) of
        Some e \<Rightarrow> map_outcome (finish_run w (ev @ ev1) []) (leave_early st (Some (Add_Track_Failed e)) m)
      | None \<Rightarrow>
     (case worker_lines (planAudio p) (planVideo p) (aIngester m) (vIngester m) (workers w) of
        Panics \<Rightarrow> Panics
      | Returns ls \<Rightarrow>
          map_outcome
            (finish_run w (ev @ ev1 @ [Start_Workers]) (map Log_Line (callbackLines w) # map (map Log_Line) ls))
            (case offer of
               None \<Rightarrow> caller_negotiates st cp fl w m
             | Some sdp \<Rightarrow> callee_negotiates st cp fl w sdp (callKind p) m)))))"

definition media_func ::
  "('s, 'o) recorders \<Rightarrow> call_profile \<Rightarrow> media_flags \<Rightarrow> webrtc \<Rightarrow> (media_error option \<times> media_event list) outcome" where
  "media_func st cp fl w =
     (if Role cp = ''uac'' then with_plan st cp fl w None (caller_plan cp) []
      else (case firstOffer w of
          None \<Rightarrow> Returns (None, notify_exit)
        | Some (t, sdp) \<Rightarrow>
            if t \<noteq> ''offer'' then
              Returns (None, [Take_Sdp (t, sdp), Log_Line ''Got offer'',
                Log_Line ''SDP type from sdpFromUAChan is not offer?''] @ notify_exit)
            else let sdp1 = edit_remote_sdp sdp
              in with_plan st cp fl w (Some (t, sdp1)) (callee_plan cp sdp)
                [Take_Sdp (t, sdp), log_sdp cp ''Got offer'' sdp1]))"

subsection \<open>What the user agent may rely on\<close>

text \<open>
  A complete run: the last thing it does is to tell the end, it gave at most one description, of type
  \<open>ty\<close>, and every part it opened was closed, once, or twice when the two closing calls raced.
\<close>

definition closed_right :: "close_race \<Rightarrow> part multiset \<Rightarrow> media_event list \<Rightarrow> bool" where
  "closed_right race before ev =
     (let M = before + mset (opened_parts ev)
      in (\<forall>p. count M p \<le> 1) \<and> (mset (closed_parts ev) = M \<or> race = Both_Unset \<and> mset (closed_parts ev) = M + M))"

definition described :: "string \<Rightarrow> media_event list \<Rightarrow> bool" where
  "described ty ev = (length (given ev) \<le> 1 \<and> list_all (\<lambda>d. fst d = ty) (given ev))"

definition complete_run :: "string \<Rightarrow> media_event list \<Rightarrow> bool" where
  "complete_run ty ev = ((\<exists>pre. ev = pre @ notify_exit \<and> Tell_End \<notin> set pre) \<and> described ty ev)"

text \<open>The events of one thread before it closes anything, and how a run ends.\<close>

definition open_run :: "string \<Rightarrow> media_event list \<Rightarrow> bool" where
  "open_run ty ev = (Tell_End \<notin> set ev \<and> closed_parts ev = [] \<and> opened_parts ev = [] \<and> described ty ev)"

definition exit_ok :: "string \<Rightarrow> close_race \<Rightarrow> ('s, 'o) media_parts \<Rightarrow> media_exit \<Rightarrow> bool" where
  "exit_ok ty race m = (\<lambda>(err, own, others, after).
     let ev = own @ concat others @ after
     in Tell_End \<notin> set ev \<and> described ty ev \<and> closed_right race (mset (open_parts m)) ev)"

text \<open>The local description, when there is one, has the type \<open>ty\<close>.\<close>

definition gives_type :: "string \<Rightarrow> webrtc \<Rightarrow> bool" where
  "gives_type ty w = (case gathered w of None \<Rightarrow> True | Some (t, sdp) \<Rightarrow> t = ty)"

lemma log_sdp_log: "\<exists>l. log_sdp cp what sdp = Log_Line l"
  by (simp add: log_sdp_def)

lemma log_sdp_simps [simp]:
  "quiet (log_sdp cp what sdp # ev) = quiet ev" "opened_parts (log_sdp cp what sdp # ev) = opened_parts ev"
  "given (log_sdp cp what sdp # ev) = given ev" "closed_parts (log_sdp cp what sdp # ev) = closed_parts ev"
  "Tell_End \<noteq> log_sdp cp what sdp"
  using log_sdp_log [of cp what sdp] by auto

text \<open>Nothing of this but the end depends on the order of the events.\<close>

lemma mset_concat_map: "mset xs = mset ys \<Longrightarrow> mset (concat (map f xs)) = mset (concat (map f ys))"
  unfolding mset_concat by (metis map_map mset_map sum_mset_sum_list)

lemma mset_parts:
  "mset xs = mset ys \<Longrightarrow> mset (opened_parts xs) = mset (opened_parts ys) \<and>
     mset (closed_parts xs) = mset (closed_parts ys) \<and> mset (given xs) = mset (given ys)"
  unfolding opened_parts_def closed_parts_def given_def by (intro conjI mset_concat_map)

lemma described_mset: "mset xs = mset ys \<Longrightarrow> described ty xs = described ty ys"
  using mset_parts [of xs ys] size_mset [of "given xs"] size_mset [of "given ys"] set_mset_mset [of "given xs"]
    set_mset_mset [of "given ys"] by (simp add: described_def list_all_iff)

lemma closed_right_mset: "mset xs = mset ys \<Longrightarrow> closed_right race M xs = closed_right race M ys"
  using mset_parts [of xs ys] by (simp add: closed_right_def)

lemma count_distinct: "(\<forall>p. count (mset xs) p \<le> 1) \<Longrightarrow> distinct xs"
proof (induction xs)
  case (Cons x xs)
  have "count (mset xs) p \<le> count (mset (x # xs)) p" for p by simp
  then have "count (mset xs) p \<le> 1" for p using Cons.prems le_trans by blast
  moreover have "count (mset xs) x = 0" using Cons.prems [rule_format, of x] by simp
  ultimately show ?case using Cons.IH by (simp add: count_eq_zero_iff)
qed simp

lemma open_parts_count: "count (mset (open_parts m)) p \<le> 1"
  using open_parts_distinct [of m] by (simp add: distinct_count_atmost_1)

lemma close_slot_open [simp]:
  "slot_open (close_slot f w) = slot_open w" "(close_slot f w = Typed_Nil) = (w = Typed_Nil)"
  by (cases w; simp)+

lemma do_close_parts:
  assumes "do_close st m = Returns (ps, m')" and "\<not> doClosed m"
  shows "ps = open_parts m" "doClosed m'" "\<not> nil_recorder m"
    "open_parts (m'\<lparr> doClosed := False \<rparr>) = open_parts m" "\<not> nil_recorder (m'\<lparr> doClosed := False \<rparr>)"
proof -
  have n: "\<not> nil_recorder m" using assms by (auto simp: do_close_def split: if_splits)
  then have m': "ps = open_parts m" "m' = m\<lparr> doClosed := True, daG711u := close_slot (g711_close (close_file st)) (daG711u m),
      daOpus := close_slot (opus_close st) (daOpus m), dvH264 := close_slot (h264_close (close_file st)) (dvH264 m) \<rparr>"
    using assms by (simp_all add: do_close_def)
  show "ps = open_parts m" "doClosed m'" "\<not> nil_recorder m" "open_parts (m'\<lparr> doClosed := False \<rparr>) = open_parts m"
    "\<not> nil_recorder (m'\<lparr> doClosed := False \<rparr>)"
    using n by (simp_all add: m' open_parts_def nil_recorder_def)
qed

lemma do_close_again: "doClosed m \<Longrightarrow> do_close st m = Returns ([], m)"
  by (simp add: do_close_def)

text \<open>What the two calls of \<^verbatim>\<open>doClose\<close> close: one of them all that is open, or both.\<close>

lemma do_closes_parts:
  assumes "do_closes st race m = Returns (ps, qs)" and "\<not> doClosed m"
  shows "mset ps + mset qs = mset (open_parts m) \<or>
    race = Both_Unset \<and> mset ps + mset qs = mset (open_parts m) + mset (open_parts m)"
proof -
  obtain rs m1 where c: "do_close st m = Returns (rs, m1)"
    using assms(1) by (auto simp: do_closes_def split: outcome.splits)
  note r = do_close_parts [OF c assms(2)]
  show ?thesis using assms(1) c r do_close_again [OF r(2), of st]
    by (cases race) (auto simp: do_closes_def do_close_def)
qed

lemma leave_ok:
  assumes "leave st race err m ev = Returns x" and "open_run ty ev" and "\<not> doClosed m"
  shows "exit_ok ty race m x"
proof -
  obtain ps qs where c: "do_closes st race m = Returns (ps, qs)"
    and x: "x = (err, ev @ map Close_Part ps, [map Close_Part qs], [])"
    using assms(1) by (cases "do_closes st race m") (auto simp: leave_def)
  from do_closes_parts [OF c assms(3)] show ?thesis
    using assms(2) open_parts_count [of m]
    by (auto simp: x exit_ok_def open_run_def closed_right_def described_def Let_def)
qed

lemma leave_early_ok:
  assumes "leave_early st err m = Returns x" and "\<not> doClosed m"
  shows "exit_ok ty race m x"
proof -
  obtain ps m1 where c: "do_close st m = Returns (ps, m1)" and x: "x = (err, map Close_Part ps, [], [])"
    using assms(1) by (cases "do_close st m") (auto simp: leave_early_def)
  from do_close_parts(1) [OF c assms(2)] show ?thesis using open_parts_count [of m]
    by (auto simp: x exit_ok_def closed_right_def described_def Let_def)
qed

lemma log_thread [simp]:
  "given (map Log_Line ls) = []" "opened_parts (map Log_Line ls) = []" "closed_parts (map Log_Line ls) = []"
  "Tell_End \<notin> Log_Line ` A"
  by (auto simp: given_def opened_parts_def closed_parts_def comp_def)

lemma run_until_done_ok:
  assumes "run_until_done st cp fl w m ev = Returns x" and "open_run ty ev" and "\<not> doClosed m"
  shows "exit_ok ty race m x"
proof -
  obtain m1 ev1 ps m2 where t: "on_tracks st cp (saveTracks fl) (arrived w) m = Returns (m1, ev1)"
    and c: "do_close st m1 = Returns (ps, m2)"
    using assms(1) by (auto simp: run_until_done_def split: outcome.splits)
  have n: "\<not> doClosed m1" using on_tracks_keeps_open [OF t] assms(3) by simp
  note d = do_close_parts [OF c n]
  have x: "x = (None, ev @ [Log_Line (''State '' @ stateText w)],
      [ev1, pli_lines fl (arrived w), map Close_Part ps], [Wait_Workers])"
    using assms(1) t c do_close_again [OF d(2), of st] by (simp add: run_until_done_def)
  from on_tracks_opens [OF t d(3)] have o: "quiet ev1"
    "mset (open_parts m1) = mset (open_parts m) + mset (opened_parts ev1)" by (simp_all add: opens_def)
  have p: "given (pli_lines fl ts) = []" "opened_parts (pli_lines fl ts) = []" "closed_parts (pli_lines fl ts) = []"
    "Tell_End \<notin> set (pli_lines fl ts)" for ts by (auto simp: pli_lines_def)
  show ?thesis
    using assms(2) o p d(1) open_parts_count [of m1]
    by (auto simp: x exit_ok_def open_run_def closed_right_def described_def quiet_def Let_def)
qed

lemma open_run_Nil: "open_run ty []"
  by (simp add: open_run_def described_def)

lemma wait_for_answer_open: "open_run ty ev \<Longrightarrow> open_run ty (snd (wait_for_answer cp w rs ev))"
proof (induction cp w rs ev rule: wait_for_answer.induct)
  case (2 cp w t sdp rest ev)
  have o: "open_run ty (ev @ [Take_Sdp (t, sdp), log_sdp cp ''Got answer'' (edit_remote_sdp sdp)])"
    using 2(2) by (simp add: open_run_def described_def)
  then show ?case using 2(1) by (auto simp: Let_def split: option.split)
qed simp

lemma caller_ok_exit:
  assumes "caller_negotiates st cp fl w m = Returns x" and "gives_type ty w" and "\<not> doClosed m"
  shows "exit_ok ty (closeRace w) m x"
proof (cases "\<exists>sdp newsdp. createLocal w = None \<and> setLocal w = None \<and> gathered w = Some (ty, sdp) \<and>
    local_sdp (ICEURLs cp) sdp = Returns newsdp")
  case False
  then show ?thesis using assms(1,2)
    by (auto simp: caller_negotiates_def gives_type_def split: option.splits outcome.splits
        intro: leave_ok [OF _ open_run_Nil assms(3)])
next
  case True
  then obtain sdp newsdp where w: "createLocal w = None" "setLocal w = None" "gathered w = Some (ty, sdp)"
    "local_sdp (ICEURLs cp) sdp = Returns newsdp" by blast
  let ?ev1 = "[log_sdp cp ''Offer created'' newsdp, Give_Sdp (ty, newsdp)]"
  obtain res ev2 where wa: "wait_for_answer cp w (remotes w) ?ev1 = (res, ev2)" by fastforce
  have "open_run ty ?ev1" by (simp add: open_run_def described_def)
  then have o2: "open_run ty ev2" using wait_for_answer_open [of ty ?ev1 cp w "remotes w"] wa by simp
  show ?thesis
  proof (cases "res = Inr True")
    case True
    then show ?thesis using assms(1) w wa run_until_done_ok [OF _ o2 assms(3)]
      by (simp add: caller_negotiates_def Let_def)
  next
    case False
    then show ?thesis using assms(1) w wa leave_ok [OF _ o2 assms(3)]
      by (auto simp: caller_negotiates_def Let_def split: sum.splits bool.splits)
  qed
qed

lemma callee_ok_exit:
  assumes "callee_negotiates st cp fl w offer kind m = Returns x" and "gives_type ty w" and "\<not> doClosed m"
  shows "exit_ok ty (closeRace w) m x"
proof -
  let ?ev1 = "[Add_Transceiver (if kind = ''video'' then Video_Kind else Audio_Kind)]"
  have o1: "open_run ty ?ev1" by (simp add: open_run_def described_def)
  have o2: "open_run ty (?ev1 @ [log_sdp cp ''Answer created'' sdp, Give_Sdp (ty, sdp)])" for sdp
    by (simp add: open_run_def described_def)
  show ?thesis
  proof (cases "setRemote w offer")
    case Some
    then show ?thesis using assms(1) leave_ok [OF _ open_run_Nil assms(3)] by (simp add: callee_negotiates_def)
  next
    case None
    note r = None
    show ?thesis
    proof (cases "\<exists>sdp newsdp. createLocal w = None \<and> setLocal w = None \<and> gathered w = Some (ty, sdp) \<and>
        local_sdp (ICEURLs cp) sdp = Returns newsdp")
      case False
      then show ?thesis using assms(1,2) r
        by (auto simp: callee_negotiates_def Let_def gives_type_def split: option.splits outcome.splits
            intro: leave_ok [OF _ o1 assms(3)])
    next
      case True
      then obtain newsdp where
        "run_until_done st cp fl w m (?ev1 @ [log_sdp cp ''Answer created'' newsdp, Give_Sdp (ty, newsdp)]) = Returns x"
        using assms(1) r by (auto simp: callee_negotiates_def Let_def)
      then show ?thesis by (rule run_until_done_ok [OF _ o2 assms(3)])
    qed
  qed
qed

lemma new_connection_open:
  "new_connection cp fl w p = (e, m, ev1) \<Longrightarrow>
     quiet ev1 \<and> opened_parts ev1 = rev (open_parts m) \<and> \<not> doClosed m"
  by (cases "planAudio p = []"; cases "planVideo p = []"; cases "pcError w (ice_configuration cp)";
      cases "setup_engine (engineApi w) (AudioFile cp) (enableAudioLevel fl) (enableTWCC fl)")
    (clarsimp simp: new_connection_def quiet_def open_parts_def no_parts_def)+

text \<open>The run as a whole, from its end.\<close>

definition run_ok :: "string \<Rightarrow> close_race \<Rightarrow> media_event list \<Rightarrow> bool" where
  "run_ok ty race ev = (complete_run ty ev \<and> closed_right race {#} ev)"

lemma finish_ok:
  assumes "exit_ok ty race m x" and "quiet pre" and "mset (opened_parts pre) = mset (open_parts m)"
    and "\<And>t. t \<in> set threads \<Longrightarrow> \<exists>ls. t = map Log_Line ls"
  shows "run_ok ty race (snd (finish_run w pre threads x))"
proof -
  obtain err own others after where x: "x = (err, own, others, after)" by (metis prod_cases4)
  let ?mid = "interleave (schedule w) (own # others @ threads)" and ?ev = "own @ concat others @ after"
  have logs: "given (concat threads) = [] \<and> opened_parts (concat threads) = [] \<and> closed_parts (concat threads) = [] \<and>
      Tell_End \<notin> set (concat threads)"
    using assms(4)
  proof (induction threads)
    case (Cons t threads)
    obtain ls where "t = map Log_Line ls" using Cons.prems [of t] by auto
    then show ?case using Cons by auto
  qed simp
  let ?ret = "case err of None \<Rightarrow> [] | Some e \<Rightarrow> [Return_Error (media_error_text e)]"
  have ret: "given ?ret = []" "opened_parts ?ret = []" "closed_parts ?ret = []" "Tell_End \<notin> set ?ret"
    by (simp_all split: option.split)
  have perm: "mset (pre @ ?mid @ after @ ?ret @ notify_exit) = mset (pre @ ?ev @ concat threads @ ?ret @ notify_exit)"
    by (simp add: mset_interleave)
  have e: "Tell_End \<notin> set ?ev" "described ty ?ev" "closed_right race (mset (open_parts m)) ?ev"
    using assms(1) by (simp_all add: exit_ok_def x Let_def)
  have "Tell_End \<notin> set ?mid"
    using e(1) logs mset_eq_setD [OF mset_interleave [of "schedule w" "own # others @ threads"]] by simp
  then have "Tell_End \<notin> set (pre @ ?mid @ after @ ?ret)" using e(1) assms(2) ret(4) by (simp add: quiet_def)
  moreover have "described ty (pre @ ?ev @ concat threads @ ?ret @ notify_exit)"
    using e(2) logs assms(2) ret by (simp add: described_def quiet_def notify_exit_def)
  moreover have "closed_right race {#} (pre @ ?ev @ concat threads @ ?ret @ notify_exit)"
    using e(3) logs assms(2,3) ret by (simp add: closed_right_def quiet_def notify_exit_def Let_def union_assoc)
  ultimately show ?thesis
    using described_mset [OF perm] closed_right_mset [OF perm]
    by (auto simp: run_ok_def complete_run_def x finish_run_def)
qed

lemma map_outcome_Returns: "map_outcome f x = Returns y \<Longrightarrow> \<exists>z. x = Returns z \<and> y = f z"
  by (cases x) auto

lemma with_plan_ok:
  assumes "with_plan st cp fl w offer p ev = Returns r" and "quiet ev" and "opened_parts ev = []"
    and "gives_type ty w"
  shows "run_ok ty (closeRace w) (snd r)"
proof -
  obtain e m ev1 where n: "(new_connection cp fl w p :: string option \<times> ('a, 'b) media_parts \<times> _) = (e, m, ev1)"
    by (metis prod.exhaust)
  note o = new_connection_open [OF n]
  have pre: "quiet (ev @ ev1)" "mset (opened_parts (ev @ ev1)) = mset (open_parts m)" "\<not> doClosed m"
    "quiet (ev @ ev1 @ [Start_Workers])" "mset (opened_parts (ev @ ev1 @ [Start_Workers])) = mset (open_parts m)"
    using o assms(2,3) by simp_all
  have early: "run_ok ty (closeRace w) (snd r)"
    if "map_outcome (finish_run w (ev @ ev1) []) (leave_early st err m) = Returns r" for err
    using map_outcome_Returns [OF that]
      finish_ok [where threads = "[]" and w = w, OF leave_early_ok [where st = st and err = err, OF _ pre(3)] pre(1,2)]
    by auto
  have late: "run_ok ty (closeRace w) (snd r)"
    if "map_outcome (finish_run w (ev @ ev1 @ [Start_Workers]) (map Log_Line (callbackLines w) # map (map Log_Line) ls)) x = Returns r"
      and "\<And>y. x = Returns y \<Longrightarrow> exit_ok ty (closeRace w) m y" for ls x
  proof -
    note t = that
    obtain y where y: "x = Returns y"
      "r = finish_run w (ev @ ev1 @ [Start_Workers]) (map Log_Line (callbackLines w) # map (map Log_Line) ls) y"
      using map_outcome_Returns [OF t(1)] by blast
    show ?thesis unfolding y(2) by (rule finish_ok [OF t(2) [OF y(1)] pre(4,5)]) auto
  qed
  show ?thesis
    using assms(1) n caller_ok_exit [OF _ assms(4) pre(3), of st cp fl] callee_ok_exit [OF _ assms(4) pre(3), of st cp fl]
    unfolding with_plan_def
    by (auto split: option.split_asm if_split_asm outcome.split_asm intro: early late)
qed

lemma notify_only_ok: "quiet ev \<Longrightarrow> opened_parts ev = [] \<Longrightarrow> run_ok ty race (ev @ notify_exit)"
  by (auto simp: run_ok_def complete_run_def described_def closed_right_def quiet_def notify_exit_def)

lemma media_func_ok:
  assumes "media_func st cp fl w = Returns (err, ev)" and "gives_type ty w"
  shows "run_ok ty (closeRace w) ev"
proof (cases "Role cp = ''uac''")
  case True
  then show ?thesis
    using assms(1) with_plan_ok [OF _ _ _ assms(2), of st cp fl None "caller_plan cp" "[]" "(err, ev)"]
    by (simp add: media_func_def)
next
  case False
  then show ?thesis
    using assms(1) notify_only_ok [of "[]" ty]
      notify_only_ok [of "[Take_Sdp _, Log_Line ''Got offer'', Log_Line ''SDP type from sdpFromUAChan is not offer?'']" ty]
      with_plan_ok [OF _ _ _ assms(2), of st cp fl _ _ "[Take_Sdp _, log_sdp cp ''Got offer'' _]" "(err, ev)"]
    by (auto simp: media_func_def Let_def split: if_splits option.splits)
qed

lemma media_func_complete:
  assumes "media_func st cp fl w = Returns (err, ev)" and "gives_type ty w"
  shows "complete_run ty ev"
  using media_func_ok [OF assms] by (simp add: run_ok_def)


text \<open>A run over files in memory, with an Opus recorder that keeps its packets.\<close>

definition mem_recorders :: "(bytes, bytes list) recorders" where
  "mem_recorders =
     \<lparr> create_file = (\<lambda>f. Inr []), put_file = (\<lambda>s d. (None, s @ d)), close_file = (\<lambda>s. (None, s)),
       opus_new = (\<lambda>f rate ch. Inr (Some [])), opus_write = (\<lambda>o' (h, p). Returns (None, o' @ [p])),
       opus_close = (\<lambda>o'. (None, o')) \<rparr>"

definition sample_webrtc :: webrtc where
  "sample_webrtc =
     \<lparr> firstOffer = None, engineApi = open_engine, pcError = (\<lambda>c. None), addVideo = None, addAudio = None,
       createLocal = None, setLocal = None, localText = [], gathered = Some (''offer'', ''v=0''),
       remotes = [(''answer'', ''v=0'')], setRemote = (\<lambda>d. None), stateText = ''stable'',
       arrived = [], callbackLines = [''PC state connected''],
       workers = \<lparr> readsA = (By_Connection, [True, False]), playA = (By_Connection, Returns None),
         readsV = (By_Context, []), playV = (By_Context, Returns None) \<rparr>,
       closeRace = Deferred_First, schedule = [1, 0, 4, 3] \<rparr>"

definition sample_flags :: media_flags where
  "sample_flags = \<lparr> saveTracks = True, enableAudioLevel = False, enableTWCC = False \<rparr>"

definition pcmu_call_track :: track where
  "pcmu_call_track =
     \<lparr> trackKind = Audio_Kind, trackCodec = plain_codec ''audio/PCMU'' 8000 1 [] 0, trackHeaders = [],
       reads = [Packet sample_header [1, 2], Packet sample_header [3]] \<rparr>"


subsection \<open>When it returns\<close>

lemma on_tracks_unsaved: "on_tracks st cp False ts m = Returns (m, replicate (length ts) (Log_Line ''Got pc.OnTrack''))"
  by (induction ts) (simp_all add: handle_track_def)

lemma do_closes_returns:
  assumes "\<not> nil_recorder m" and "race \<noteq> Both_Panic"
  shows "do_closes st race m \<noteq> Panics"
proof (cases "doClosed m")
  case True
  then show ?thesis using assms by (cases race) (simp_all add: do_closes_def do_close_def nil_recorder_def)
next
  case False
  obtain ps m1 where c: "do_close st m = Returns (ps, m1)" using assms(1) False by (simp add: do_close_def)
  from do_close_parts [OF c False] c assms(2) show ?thesis
    by (cases race) (simp_all add: do_closes_def do_close_def)
qed

lemma map_outcome_Panics [simp]: "map_outcome f x = Panics \<longleftrightarrow> x = Panics"
  by (cases x) simp_all

lemma leave_returns: "\<not> nil_recorder m \<Longrightarrow> race \<noteq> Both_Panic \<Longrightarrow> leave st race err m ev \<noteq> Panics"
  by (simp add: leave_def do_closes_returns)

lemma leave_early_returns: "\<not> nil_recorder m \<Longrightarrow> leave_early st err m \<noteq> Panics"
  by (simp add: leave_early_def do_close_def)

lemma run_until_done_returns: "\<not> nil_recorder m \<Longrightarrow> \<not> saveTracks fl \<Longrightarrow> run_until_done st cp fl w m ev \<noteq> Panics"
  by (simp add: run_until_done_def on_tracks_unsaved do_close_def)

lemmas returns = leave_returns run_until_done_returns local_sdp_returns

lemma caller_returns:
  "\<not> nil_recorder m \<Longrightarrow> closeRace w \<noteq> Both_Panic \<Longrightarrow> \<not> saveTracks fl \<Longrightarrow> caller_negotiates st cp fl w m \<noteq> Panics"
  by (simp add: caller_negotiates_def Let_def returns split: option.split prod.split outcome.split sum.split bool.split)

lemma callee_returns:
  "\<not> nil_recorder m \<Longrightarrow> closeRace w \<noteq> Both_Panic \<Longrightarrow> \<not> saveTracks fl \<Longrightarrow>
     callee_negotiates st cp fl w offer kind m \<noteq> Panics"
  by (simp add: callee_negotiates_def Let_def returns split: option.split prod.split outcome.split)

lemma new_connection_recorders: "new_connection cp fl w p = (e, m, ev) \<Longrightarrow> \<not> nil_recorder m"
  by (auto simp: new_connection_def nil_recorder_def no_parts_def Let_def split: sum.splits option.splits)

lemma with_plan_returns:
  assumes "\<not> saveTracks fl" and "closeRace w \<noteq> Both_Panic" and "snd (playA (workers w)) \<noteq> Panics"
    and "snd (playV (workers w)) \<noteq> Panics"
  shows "with_plan st cp fl w offer p ev \<noteq> Panics"
proof -
  obtain e m ev1 where n: "(new_connection cp fl w p :: string option \<times> ('a, 'b) media_parts \<times> _) = (e, m, ev1)"
    by (metis prod.exhaust)
  note r = new_connection_recorders [OF n]
  have wl: "worker_lines sa sv a v (workers w) \<noteq> Panics" for sa sv a v
    using worker_lines_return [OF assms(3,4), of sa sv a v] by auto
  show ?thesis
    using n leave_early_returns [OF r, of st] caller_returns [OF r assms(2,1)] callee_returns [OF r assms(2,1)] wl
    by (simp add: with_plan_def split: option.split outcome.split)
qed

text \<open>
  A media function that records nothing panics only with one of its workers, or when the two calls of
  \<^verbatim>\<open>doClose\<close> race: its own thread does not.
\<close>

lemma media_func_saves_nothing:
  assumes "\<not> saveTracks fl" and "closeRace w \<noteq> Both_Panic" and "snd (playA (workers w)) \<noteq> Panics"
    and "snd (playV (workers w)) \<noteq> Panics"
  shows "\<exists>err ev. media_func st cp fl w = Returns (err, ev)"
proof -
  have "media_func st cp fl w \<noteq> Panics"
    by (simp add: media_func_def Let_def with_plan_returns [OF assms] split: option.split)
  then show ?thesis by (cases "media_func st cp fl w") auto
qed

subsection \<open>What is recorded\<close>

text \<open>
  C27. A recording file that cannot be created ends the program. \<^verbatim>\<open>h264writer.New\<close> returns a nil
  recorder and an error; the variable holds the nil pointer and is no longer nil, so that closing
  the call closes a nil recorder. Every run of the media function that reaches its end with such a
  track panics.
\<close>

theorem uncreatable_recording_panics:
  assumes "saveTracks fl" and "SavedVideoFile cp \<noteq> []"
    and "create_file st (SavedVideoFile cp @ ''.h264'') = Inl e"
    and "arrived w = t # ts" and "mimeType (trackCodec t) = ''video/H264''"
    and "dvH264 m = Unset" and "\<not> doClosed m"
  shows "run_until_done st cp fl w m ev = Panics"
proof -
  let ?m1 = "m\<lparr> receivers := receivers m + 1, dvH264 := Typed_Nil \<rparr>"
  obtain err ev1 where h: "handle_track st cp True t m = Returns (err, ?m1, ev1)"
    using assms(2,3,5,6) by (simp add: handle_track_def h264_track_def open_slot_def h264_new_def Let_def)
  show ?thesis
  proof (cases "on_tracks st cp True (arrived w) m")
    case (Returns r)
    obtain m2 ev2 where r: "r = (m2, ev2)" by fastforce
    obtain ts' ev3 where "on_tracks st cp True ts' ?m1 = Returns (m2, ev3)"
      using Returns h assms(4) r by (auto split: outcome.splits)
    then have "nil_recorder m2" by (rule on_tracks_nil) (simp add: nil_recorder_def)
    moreover have "\<not> doClosed m2" using on_tracks_keeps_open [OF Returns [unfolded r]] assms(7) by simp
    ultimately show ?thesis using Returns r assms(1) by (simp add: run_until_done_def do_close_def)
  qed (use assms(1) in \<open>simp add: run_until_done_def\<close>)
qed

definition video_call_track :: "read list \<Rightarrow> track" where
  "video_call_track rs =
     \<lparr> trackKind = Video_Kind, trackCodec = h264_codec ''42e01f'' 125, trackHeaders = [], reads = rs \<rparr>"

lemma video_call_track_mime: "mimeType (trackCodec (video_call_track rs)) = ''video/H264''"
  by (simp add: video_call_track_def h264_codec_def plain_codec_def)

theorem uncreatable_recording_panics_witness:
  "run_until_done (mem_recorders\<lparr> create_file := (\<lambda>f. Inl ''permission denied'') \<rparr>)
     (sample_profile\<lparr> SavedVideoFile := ''in'' \<rparr>) sample_flags
     (sample_webrtc\<lparr> arrived := [video_call_track []] \<rparr>) (no_parts\<lparr> pcOpen := True \<rparr>) [] = Panics"
  by (rule uncreatable_recording_panics [where t = "video_call_track []" and ts = "[]"])
    (simp_all add: sample_flags_def mem_recorders_def no_parts_def video_call_track_mime)

text \<open>
  Writing a track to disk is the recording loop over its packets, whatever ends it.
\<close>

lemma write_track_packets:
  "write_track (\<lambda>i (h, p). wr i (Some p)) np (Holds w) (map (\<lambda>(h, p). Packet h p) ps @ rs) =
     (case write_packets wr w (map snd ps) of
        Panics \<Rightarrow> Panics
      | Returns w1 \<Rightarrow> write_track (\<lambda>i (h, p). wr i (Some p)) np (Holds w1) rs)"
  by (induction ps arbitrary: w) (auto split: outcome.split)

text \<open>
  C24. A video track of a call, until its context is done, leaves in the recorder what the recording
  loop makes of its packets from a fresh file: the call records the track, and only that.
\<close>

theorem video_track_recorded:
  assumes "SavedVideoFile cp \<noteq> []" and "create_file st (SavedVideoFile cp @ ''.h264'') = Inr f"
    and "mimeType (trackCodec t) = ''video/H264''" and "dvH264 m = Unset"
    and "reads t = map (\<lambda>(h, p). Packet h p) ps"
    and "write_packets (h264_write_rtp (put_file st)) (h264_new_with f) (map snd ps) = Returns h"
  shows "\<exists>ev. handle_track st cp True t m =
    Returns (Some (Write_Video_Disk Context_Error),
      m\<lparr> receivers := receivers m + 1, dvH264 := Holds h \<rparr>, ev) \<and> H264_File \<in> set (opened_parts ev)"
  using assms(1-4) write_track_packets [of "h264_write_rtp (put_file st)" "\<lambda>p. p \<noteq> []" "h264_new_with f" ps "[]"]
    assms(5,6)
  by (simp add: handle_track_def h264_track_def open_slot_def h264_new_def Let_def)

theorem video_track_recorded_witness:
  "\<exists>ev. handle_track mem_recorders (sample_profile\<lparr> SavedVideoFile := ''in'' \<rparr>) True
      (video_call_track [Packet sample_header [0x67, 1, 2, 3], Packet sample_header [0x65, 4, 5]]) no_parts =
    Returns (Some (Write_Video_Disk Context_Error),
      no_parts\<lparr> receivers := 1, dvH264 := Holds \<lparr> writer = [0, 0, 0, 1, 0x67, 1, 2, 3, 0, 0, 0, 1, 0x65, 4, 5],
        hasKeyFrame = True \<rparr> \<rparr>, ev) \<and> H264_File \<in> set (opened_parts ev)"
proof -
  have "write_packets (h264_write_rtp mem_put') (h264_new_with []) [[0x67, 1, 2, 3], [0x65, 4, 5]] =
      Returns \<lparr> writer = [0, 0, 0, 1, 0x67, 1, 2, 3, 0, 0, 0, 1, 0x65, 4, 5], hasKeyFrame = True \<rparr>"
    if "mem_put' = (\<lambda>s d. (None, s @ d))" for mem_put' :: "bytes \<Rightarrow> bytes \<Rightarrow> string option \<times> bytes"
    by (simp add: that h264_write_rtp_def h264_new_with_def is_key_frame_bytes h264_unmarshal_def
        annexb_start_code_def Let_def)
  then show ?thesis
    using video_track_recorded [of "sample_profile\<lparr> SavedVideoFile := ''in'' \<rparr>" mem_recorders "[]"
        "video_call_track [Packet sample_header [0x67, 1, 2, 3], Packet sample_header [0x65, 4, 5]]" no_parts
        "[(sample_header, [0x67, 1, 2, 3]), (sample_header, [0x65, 4, 5])]"]
    by (simp add: mem_recorders_def video_call_track_mime no_parts_def) (simp add: video_call_track_def)
qed

end
