(* ===== verification/Call_System.thy ===== *)
theory Call_System
  imports Ua_Properties Media
begin

text \<open>
  A user agent together with its media functions. In \<open>Ua_System\<close> the media function is a part of
  the environment that may do what the agent relies on; here it is the media function of
  \<^verbatim>\<open>src/rtc/media.go\<close>: when the agent starts one, some run of \<open>media_func\<close> begins, and its events
  are performed one by one, interleaved with the agent, each send and receive waiting for its
  channel. Every state of this system is shown to be one of the system of the agent, so all that is
  proved there holds of the two together.
\<close>

text \<open>Events that nobody outside the media function sees.\<close>

fun silent :: "media_event \<Rightarrow> bool" where
  "silent (Open_Part p) = True"
| "silent (Close_Part p) = True"
| "silent Start_Pli = True"
| "silent Start_Workers = True"
| "silent (Add_Transceiver k) = True"
| "silent Wait_Workers = True"
| "silent _ = False"

text \<open>What the agent passes: only the recording is ever asked for.\<close>

definition ua_flags :: "ua_state \<Rightarrow> media_flags" where
  "ua_flags s = \<lparr> saveTracks = mediaRecord s, enableAudioLevel = False, enableTWCC = False \<rparr>"

text \<open>
  The system: the agent's state and the events its media function has still to perform. The last
  log line and the end are performed as one, as in \<open>Ua_System\<close>. A media function that panics ends the
  program and is not a step.
\<close>

inductive call_step ::
  "('s, 'o) recorders \<Rightarrow> call_profile \<Rightarrow> (int \<Rightarrow> string) \<Rightarrow>
   ua_sys \<times> media_event list \<Rightarrow> ua_sys \<times> media_event list \<Rightarrow> bool"
  for st :: "('s, 'o) recorders" and cp :: call_profile and pt :: "int \<Rightarrow> string" where
  agent_acts: "ua_case cp (env_at cp pt t) b b' \<Longrightarrow> mediaStarts (ua b') = mediaStarts (ua b) \<Longrightarrow>
    call_step st cp pt (b, ev) (b', ev)"
| agent_starts: "ua_case cp (env_at cp pt t) b b' \<Longrightarrow> mediaStarts (ua b') \<noteq> mediaStarts (ua b) \<Longrightarrow>
    media_func st cp (ua_flags (ua b')) w = Returns (err, run) \<Longrightarrow> gives_type (local_type cp) w \<Longrightarrow>
    call_step st cp pt (b, ev) (b', run)"
| reporter: "reporters (ua b) = xs @ r # ys \<Longrightarrow>
    call_step st cp pt (b, ev) (b\<lparr> ua := on_reporter (env_at cp pt t) r (xs @ ys) (ua b) \<rparr>, ev)"
| stack_callback:
    "call_step st cp pt (b, ev) (b\<lparr> ua := invite_state (env_at cp pt t) sess body sta (ua b) \<rparr>, ev)"
| stack_send: "sipSends (ua b) = xs @ (a # as) # ys \<Longrightarrow> do_send a (ua b) = Some s \<Longrightarrow>
    call_step st cp pt (b, ev) (b\<lparr> ua := s\<lparr> sipSends := xs @ as # ys \<rparr> \<rparr>, ev)"
| another_agent:
    "call_step st cp pt (b, ev) (b\<lparr> ua := (ua b)\<lparr> uasCallIndex := uasCallIndex (ua b) + 1 \<rparr> \<rparr>, ev)"
| cancelled: "call_step st cp pt (b, ev) (b\<lparr> mainDone := True \<rparr>, ev)"
| runs_silently: "silent e \<Longrightarrow> call_step st cp pt (b, e # ev) (b, ev)"
| runs_log: "ev \<noteq> [Tell_End] \<Longrightarrow> length (logChan (ua b)) < 50 \<Longrightarrow>
    call_step st cp pt (b, Log_Line l # ev)
      (b\<lparr> ua := (ua b)\<lparr> logChan := logChan (ua b) @ [l] \<rparr> \<rparr>, ev)"
| runs_give: "sdpFromMediaChan (ua b) = [] \<Longrightarrow>
    call_step st cp pt (b, Give_Sdp d # ev)
      (b\<lparr> ua := (ua b)\<lparr> sdpFromMediaChan := [d] \<rparr>, offered := True \<rparr>, ev)"
| runs_take: "sdpToMediaChan (ua b) = d # rest \<Longrightarrow>
    call_step st cp pt (b, Take_Sdp d # ev) (b\<lparr> ua := (ua b)\<lparr> sdpToMediaChan := rest \<rparr> \<rparr>, ev)"
| runs_end: "length (logChan (ua b)) < 50 \<Longrightarrow>
    call_step st cp pt (b, [Log_Line l, Tell_End])
      (b\<lparr> ua := (ua b)\<lparr> logChan := logChan (ua b) @ [l],
           mediaFuncEndChan := mediaFuncEndChan (ua b) + 1,
           mediaErrors := mediaErrors (ua b) @ (case mediaResult b of None \<Rightarrow> [] | Some e \<Rightarrow> [e]) \<rparr>,
         media := Media_Ended \<rparr>, [])"
| runs_return: "call_step st cp pt (b, Return_Error e # ev) (b\<lparr> mediaResult := Some e \<rparr>, ev)"
| error_logged: "mediaErrors (ua b) = xs @ e # ys \<Longrightarrow>
    call_step st cp pt (b, ev) (b\<lparr> ua := on_media_error (env_at cp pt t) e (xs @ ys) (ua b) \<rparr>, ev)"

definition call_reach ::
  "('s, 'o) recorders \<Rightarrow> call_profile \<Rightarrow> nat \<Rightarrow> (int \<Rightarrow> string) \<Rightarrow>
   ua_sys \<times> media_event list \<Rightarrow> bool" where
  "call_reach st cp k pt =
     reach (\<lambda>(b, ev). valid_profile cp \<and> ua_start cp k b \<and> ev = []) (call_step st cp pt)"

subsection \<open>The media function keeps to its part\<close>

text \<open>
  The rest of a run, while the media function runs: some part of a complete run is behind it, and
  a description was given in that part exactly when \<open>offered\<close> says so.
\<close>

definition run_left :: "call_profile \<Rightarrow> ua_sys \<Rightarrow> media_event list \<Rightarrow> bool" where
  "run_left cp b ev =
     (if media b = Media_Running then
        \<exists>past. complete_run (local_type cp) (past @ ev) \<and> ev \<noteq> [] \<and> offered b = (given past \<noteq> [])
      else ev = [])"

lemma run_left_frame:
  "media b' = media b \<Longrightarrow> offered b' = offered b \<Longrightarrow> run_left cp b' ev = run_left cp b ev"
  by (simp add: run_left_def)

lemma run_ends:
  assumes "complete_run ty (past @ ev)" and "ev \<noteq> []"
  shows "last ev = Tell_End"
proof -
  obtain pre where "past @ ev = pre @ notify_exit" using assms(1) by (auto simp: complete_run_def)
  then have "last (past @ ev) = Tell_End" by (simp add: notify_exit_def)
  then show ?thesis using assms(2) by simp
qed

lemma run_last_log:
  assumes "complete_run ty (past @ [Log_Line l, Tell_End])"
  shows "l = ''MediaFunc exits''"
proof -
  obtain pre where "past @ [Log_Line l, Tell_End] = (pre @ [Wait_Workers]) @ [Log_Line ''MediaFunc exits'', Tell_End]"
    using assms by (auto simp: complete_run_def notify_exit_def)
  then show ?thesis by (simp add: append_eq_append_conv)
qed

lemma run_gives:
  assumes "complete_run ty (past @ Give_Sdp d # ev)"
  shows "given past = [] \<and> fst d = ty"
  using assms by (auto simp: complete_run_def described_def)

lemma run_starts: "complete_run ty ev \<Longrightarrow> ev \<noteq> []"
  by (auto simp: complete_run_def notify_exit_def)

text \<open>The media function performs one event other than its last.\<close>

lemma run_left_next:
  assumes "run_left cp b (e # ev)" and "e \<noteq> Tell_End" and "media b' = media b"
    and "offered b' = (offered b \<or> given [e] \<noteq> [])"
  shows "run_left cp b' ev"
proof -
  obtain past where m: "media b = Media_Running" and c: "complete_run (local_type cp) (past @ e # ev)"
    and o: "offered b = (given past \<noteq> [])"
    using assms(1) by (auto simp: run_left_def split: if_splits)
  have "ev \<noteq> []" using run_ends [OF c] assms(2) by auto
  moreover have "complete_run (local_type cp) ((past @ [e]) @ ev)" using c by simp
  moreover have "offered b' = (given (past @ [e]) \<noteq> [])" using assms(4) o by simp
  ultimately have "\<exists>past. complete_run (local_type cp) (past @ ev) \<and> ev \<noteq> [] \<and> offered b' = (given past \<noteq> [])"
    by blast
  then show ?thesis using m assms(3) by (simp add: run_left_def)
qed

lemma case_media:
  assumes "ua_case cp env b b'" and "media_ok b" and "mediaStarts (ua b') = mediaStarts (ua b)"
  shows "media b' = media b \<and> offered b' = offered b \<or> media b \<noteq> Media_Running \<and> media b' \<noteq> Media_Running"
  using assms by (cases rule: ua_case.cases) (auto simp: after_case_def media_ok_def split: if_splits)

lemma case_starts_media:
  assumes "ua_case cp env b b'" and "mediaStarts (ua b') \<noteq> mediaStarts (ua b)"
  shows "media b' = Media_Running \<and> \<not> offered b'"
  using assms by (cases rule: ua_case.cases) (auto simp: after_case_def split: if_splits)

lemma call_step_system:
  assumes "call_step st cp pt (b, ev) (b', ev')" and "ua_ok cp k b" and "run_left cp b ev"
  shows "(b' = b \<or> ua_step cp pt b b') \<and> run_left cp b' ev'"
  using assms(1)
proof (cases rule: call_step.cases)
  case (agent_acts t)
  have "media_ok b" using assms(2) by (simp add: ua_ok_def)
  from case_media [OF agent_acts(2) this agent_acts(3)] assms(3) show ?thesis
    using ua_step.by_case [OF agent_acts(2)] agent_acts(1) by (auto simp: run_left_def)
next
  case (agent_starts t w err)
  have "complete_run (local_type cp) ev'" by (rule media_func_complete [OF agent_starts(3,4)])
  then show ?thesis
    using case_starts_media [OF agent_starts(1,2)] run_starts ua_step.by_case [OF agent_starts(1)]
    by (auto simp: run_left_def intro: exI [of _ "[]"])
next
  case (reporter xs r ys t)
  then show ?thesis using ua_step.by_other [OF reporter_runs [OF reporter(3)]] assms(3)
    by (auto simp: run_left_def)
next
  case (stack_callback t sess body sta)
  then show ?thesis using ua_step.by_other [OF stack_calls] assms(3) by (auto simp: run_left_def)
next
  case (stack_send xs a as ys s)
  then show ?thesis using ua_step.by_other [OF stack_sends [OF stack_send(3,4)]] assms(3) by (auto simp: run_left_def)
next
  case another_agent
  then show ?thesis using ua_step.by_other [OF other_agent] assms(3) by (auto simp: run_left_def)
next
  case cancelled
  then show ?thesis using ua_step.by_other [OF main_cancelled] assms(3) by (auto simp: run_left_def)
next
  case (runs_silently e)
  then have "e \<noteq> Tell_End" "given [e] = []" by (cases e; simp)+
  then show ?thesis using run_left_next [of cp b e ev' b'] runs_silently assms(3) by simp
next
  case (runs_log l)
  then show ?thesis
    using ua_step.by_other [OF media_logs [OF runs_log(4)]] run_left_next [of cp b "Log_Line l" ev' b'] assms(3)
    by simp
next
  case (runs_give d)
  obtain past where m: "media b = Media_Running" "complete_run (local_type cp) (past @ Give_Sdp d # ev')"
    "offered b = (given past \<noteq> [])"
    using assms(3) runs_give(1) by (auto simp: run_left_def split: if_splits)
  have d: "\<not> offered b" "d = (local_type cp, snd d)" using run_gives [OF m(2)] m(3) by (simp_all add: prod_eq_iff)
  have "ua_step cp pt b (b\<lparr> ua := (ua b)\<lparr> sdpFromMediaChan := [(local_type cp, snd d)] \<rparr>, offered := True \<rparr>)"
    by (rule ua_step.by_other [OF media_describes [OF m(1) d(1) runs_give(3)]])
  then show ?thesis using run_left_next [of cp b "Give_Sdp d" ev' b'] runs_give d(2) assms(3) by simp
next
  case (runs_take d rest)
  have m: "media b = Media_Running" using assms(3) runs_take(1) by (auto simp: run_left_def split: if_splits)
  show ?thesis
    using ua_step.by_other [OF media_takes [OF m runs_take(3)]] run_left_next [of cp b "Take_Sdp d" ev' b'] assms(3)
      runs_take by simp
next
  case (runs_end l)
  obtain past where m: "media b = Media_Running" "complete_run (local_type cp) (past @ [Log_Line l, Tell_End])"
    using assms(3) runs_end(1) by (auto simp: run_left_def split: if_splits)
  show ?thesis
    using ua_step.by_other [OF media_ends [OF m(1) runs_end(4)]] run_last_log [OF m(2)] runs_end
    by (simp add: run_left_def)
next
  case (runs_return e)
  have m: "media b = Media_Running" using assms(3) runs_return(1) by (auto simp: run_left_def split: if_splits)
  show ?thesis
    using ua_step.by_other [OF media_returns [OF m]] run_left_next [of cp b "Return_Error e" ev' b'] assms(3)
      runs_return by simp
next
  case (error_logged xs e ys t)
  then show ?thesis using ua_step.by_other [OF media_error_logged [OF error_logged(3)]] assms(3)
    by (auto simp: run_left_def)
qed

lemma start_no_media: "ua_start cp k b \<Longrightarrow> media b = No_Media"
  by (auto simp: ua_start_def)

interpretation joint: refinement_system
  "\<lambda>(b, ev). valid_profile cp \<and> ua_start cp k b \<and> ev = []" "call_step st cp pt"
  "\<lambda>b. valid_profile cp \<and> ua_start cp k b" "\<lambda>b b'. valid_profile cp \<and> ua_step cp pt b b'" fst
  "\<lambda>(b, ev). valid_profile cp \<and> run_left cp b ev" for st cp k pt
proof unfold_locales
  fix s :: "ua_sys \<times> media_event list"
  assume "case s of (b, ev) \<Rightarrow> valid_profile cp \<and> ua_start cp k b \<and> ev = []"
  then show "(valid_profile cp \<and> ua_start cp k (fst s)) \<and> (case s of (b, ev) \<Rightarrow> valid_profile cp \<and> run_left cp b ev)"
    using start_no_media by (auto simp: run_left_def)
next
  fix s t
  assume "case s of (b, ev) \<Rightarrow> valid_profile cp \<and> run_left cp b ev"
    and "reach (\<lambda>b. valid_profile cp \<and> ua_start cp k b) (\<lambda>b b'. valid_profile cp \<and> ua_step cp pt b b') (fst s)"
    and "call_step st cp pt s t"
  then show "(fst t = fst s \<or> valid_profile cp \<and> ua_step cp pt (fst s) (fst t)) \<and>
      (case t of (b, ev) \<Rightarrow> valid_profile cp \<and> run_left cp b ev)"
    using call_step_system [of st cp pt "fst s" "snd s" "fst t" "snd t" k] agent.invar_reach
    by (auto simp: split_def)
qed

lemma call_reach_refines: "call_reach st cp k pt (b, ev) \<Longrightarrow> ua_reach cp k pt b \<and> run_left cp b ev"
  using joint.reach_refines [of cp k st pt "(b, ev)"] unfolding call_reach_def ua_reach_def fst_conv prod.case
  by blast

subsection \<open>The two together\<close>


lemma sample_calling_record: "mediaRecord (ua (sample_calling pt)) = False"
  by (simp add: sample_calling_def sample_ua_def ua_init_def on_start_call_def new_call_def start_media_def
      after_case_def Let_def)

lemma sample_call_reach: "\<exists>run. call_reach mem_recorders sample_parsed 0 pt (sample_calling pt, run)"
proof -
  let ?fl = "ua_flags (ua (sample_calling pt))"
  obtain err run where run: "media_func mem_recorders sample_parsed ?fl sample_webrtc = Returns (err, run)"
    using media_func_saves_nothing [of ?fl sample_webrtc mem_recorders sample_parsed]
    by (auto simp: ua_flags_def sample_calling_record sample_webrtc_def)
  have c: "ua_case sample_parsed (env_at sample_parsed pt 5) sample_ua (sample_calling pt)"
    using start_call_case [of sample_ua sample_parsed "env_at sample_parsed pt 5" 7]
    by (simp add: sample_calling_def sample_ua_def ua_init_def sample_role)
  have s: "mediaStarts (ua (sample_calling pt)) \<noteq> mediaStarts (ua sample_ua)"
    using sample_calling_starts by (simp add: sample_ua_def ua_init_def)
  have g: "gives_type (local_type sample_parsed) sample_webrtc"
    by (simp add: gives_type_def sample_webrtc_def local_type_def sample_role)
  have i: "call_reach mem_recorders sample_parsed 0 pt (sample_ua, [])"
    using sample_setup sample_valid unfolding call_reach_def
    by (intro reach_init) (fastforce simp: ua_start_def sample_agents sample_ua_def)
  show ?thesis
    using reach_step [OF i [unfolded call_reach_def] agent_starts [OF c s run g]] unfolding call_reach_def by blast
qed


end
