(* ===== verification/Whole_Bench.thy ===== *)
theory Whole_Bench
  imports Dispatch_Progress Call_System
begin

text \<open>
  The calling program as a whole: the main loop of \<^verbatim>\<open>src/main.go\<close>, its user agents
  (\<^verbatim>\<open>src/sip/ua.go\<close>), each with its media functions (\<^verbatim>\<open>src/rtc/media.go\<close>), for a bench whose
  agents all got ready. The agents take their calls from the start channels and report on the
  channel of the reports; what \<open>Dispatch_System\<close> assumes of the agents, and \<open>Ua_System\<close> of the main
  loop, is shown to hold of the two together.
\<close>

record whole =
  mainLoop :: uac_state
  uacs :: "(ua_sys \<times> media_event list) list"
  looping :: bool

inductive whole_step ::
  "('s, 'o) recorders \<Rightarrow> (call_report \<Rightarrow> (string, string) result) \<Rightarrow> call_profile \<Rightarrow>
   (int \<Rightarrow> string) \<Rightarrow> whole \<Rightarrow> whole \<Rightarrow> bool"
  for st :: "('s, 'o) recorders" and marshal :: "call_report \<Rightarrow> (string, string) result" and cp :: call_profile and pt :: "int \<Rightarrow> string" where
  main_loop: "looping w \<Longrightarrow> ready c (mainLoop w) \<Longrightarrow> uac_pass marshal cp c (mainLoop w) = Proceeds (e, s) \<Longrightarrow>
    whole_step st marshal cp pt w (w\<lparr> mainLoop := s, looping := (e = Again) \<rparr>)"
| agent_works: "k < length (uacs w) \<Longrightarrow> call_step st cp pt (uacs w ! k) a \<Longrightarrow>
    started (fst a) = started (fst (uacs w ! k)) \<Longrightarrow>
    reported (ua (fst a)) = reported (ua (fst (uacs w ! k))) \<Longrightarrow>
    mainDone (fst a) \<longrightarrow> mainDone (fst (uacs w ! k)) \<or> mainCancelled (mainLoop w) \<Longrightarrow>
    whole_step st marshal cp pt w (w\<lparr> uacs := (uacs w)[k := a] \<rparr>)"
| agent_called: "k < length (uacs w) \<Longrightarrow> call_step st cp pt (uacs w ! k) a \<Longrightarrow>
    started (fst a) = started (fst (uacs w ! k)) + 1 \<Longrightarrow>
    startCallChan (mainLoop w) ! k = lastIndex (fst a) # rest \<Longrightarrow>
    whole_step st marshal cp pt w
      (w\<lparr> mainLoop := (mainLoop w)\<lparr> startCallChan := (startCallChan (mainLoop w))[k := rest] \<rparr>,
         uacs := (uacs w)[k := a] \<rparr>)"
| agent_reporting: "k < length (uacs w) \<Longrightarrow> call_step st cp pt (uacs w ! k) a \<Longrightarrow>
    reported (ua (fst a)) = reported (ua (fst (uacs w ! k))) @ [r] \<Longrightarrow>
    length (callEndChan (mainLoop w)) < agents_of cp \<Longrightarrow>
    whole_step st marshal cp pt w
      (w\<lparr> mainLoop := (mainLoop w)\<lparr> callEndChan := callEndChan (mainLoop w) @ [r] \<rparr>,
         uacs := (uacs w)[k := a] \<rparr>)"
| signalled: "whole_step st marshal cp pt w (w\<lparr> mainLoop := (mainLoop w)\<lparr> mainCancelled := True \<rparr> \<rparr>)"

definition whole_start :: "call_profile \<Rightarrow> whole \<Rightarrow> bool" where
  "whole_start cp w = (valid_profile cp \<and> Role cp = ''uac'' \<and> (\<exists>f. mainLoop w = uac_init cp f) \<and> looping w \<and>
     length (uacs w) = agents_of cp \<and>
     (\<forall>k < agents_of cp. ua_start cp k (fst (uacs w ! k)) \<and> snd (uacs w ! k) = []))"

definition whole_reach ::
  "('s, 'o) recorders \<Rightarrow> (call_report \<Rightarrow> (string, string) result) \<Rightarrow> call_profile \<Rightarrow>
   (int \<Rightarrow> string) \<Rightarrow> whole \<Rightarrow> bool" where
  "whole_reach st marshal cp pt = reach (whole_start cp) (whole_step st marshal cp pt)"

subsection \<open>The abstraction\<close>

text \<open>What the main loop knows of an agent: the call it has.\<close>

definition call_of :: "ua_sys \<times> media_event list \<Rightarrow> int option" where
  "call_of a = fst (abs_agent (fst a))"

definition abs_bench :: "whole \<Rightarrow> bench" where
  "abs_bench w = \<lparr> main = mainLoop w, agents = map call_of (uacs w), running = looping w \<rparr>"

definition agents_reached ::
  "('s, 'o) recorders \<Rightarrow> call_profile \<Rightarrow> (int \<Rightarrow> string) \<Rightarrow> whole \<Rightarrow> bool" where
  "agents_reached st cp pt w = (Role cp = ''uac'' \<and> length (uacs w) = agents_of cp \<and>
     (\<forall>k < agents_of cp. call_reach st cp k pt (uacs w ! k)))"

text \<open>The moves of an agent that the main loop sees.\<close>

lemma case_started:
  assumes "ua_case cp env b b'"
  shows "started b' = started b \<and> lastIndex b' = lastIndex b \<or>
    started b = length (reported (ua b)) \<and> started b' = started b + 1 \<and> reported (ua b') = reported (ua b)"
  using assms by (cases rule: ua_case.cases) (auto simp: after_case_def)

lemma call_step_started:
  assumes "call_step st cp pt (b, ev) (b', ev')"
  shows "started b' = started b \<and> lastIndex b' = lastIndex b \<or>
    started b = length (reported (ua b)) \<and> started b' = started b + 1 \<and> reported (ua b') = reported (ua b)"
  using assms by (cases rule: call_step.cases) (auto dest: case_started)

text \<open>An agent's step as the main loop sees it: a step of the abstract agent.\<close>

lemma call_step_spec:
  assumes "call_reach st cp k pt a" and "Role cp = ''uac''" and "call_step st cp pt a a'"
  shows "agent_spec k (abs_agent (fst a)) (abs_agent (fst a'))"
proof -
  obtain b ev b' ev' where a: "a = (b, ev)" "a' = (b', ev')" by fastforce
  have r: "ua_reach cp k pt b" "run_left cp b ev"
    using call_reach_refines [of st cp k pt b ev] assms(1) a by simp_all
  from call_step_system [OF assms(3) [unfolded a] ua_reach_ok [OF r(1)] r(2)]
  have "b' = b \<or> ua_step cp pt b b'" by blast
  then show ?thesis using agent_step_refines [OF r(1) assms(2), of b'] agent_stays [of k "abs_agent b"] a by auto
qed

lemma abs_agent_snd: "snd (abs_agent b) = reported (ua b)"
  by (simp add: abs_agent_def)

lemma works_call_of:
  assumes "agent_spec k (abs_agent b) (abs_agent b')" and "started b' = started b"
    and "reported (ua b') = reported (ua b)"
  shows "fst (abs_agent b') = fst (abs_agent b)"
  using assms by (cases rule: agent_spec.cases) (auto simp: abs_agent_def split: if_splits)

lemma called_call_of:
  assumes "call_step st cp pt a a'" and "started (fst a') = started (fst a) + 1"
  shows "call_of a = None \<and> call_of a' = Some (lastIndex (fst a'))"
  using call_step_started [of st cp pt "fst a" "snd a" "fst a'" "snd a'"] assms
  by (auto simp: call_of_def abs_agent_def)

lemma reporting_call_of:
  assumes "agent_spec k (abs_agent b) (abs_agent b')" and "reported (ua b') = reported (ua b) @ [r]"
  shows "fst (abs_agent b) = Some (CallIndex r) \<and> fst (abs_agent b') = None \<and> report_of k r"
  using assms
proof (cases rule: agent_spec.cases)
  case (agent_reports r' c rs)
  then have "snd (abs_agent b) = rs" "snd (abs_agent b') = rs @ [r']" by simp_all
  then have "r' = r" using assms(2) by (simp add: abs_agent_snd)
  then show ?thesis using agent_reports by simp
qed (metis abs_agent_snd append_self_conv assms(2) list.distinct(1) snd_conv)+

lemma agents_reached_update:
  assumes "agents_reached st cp pt w" and "k < length (uacs w)" and "call_step st cp pt (uacs w ! k) a"
    and "uacs w' = (uacs w)[k := a]"
  shows "agents_reached st cp pt w'"
  using assms reach_step [of _ "call_step st cp pt" "uacs w ! k" a]
  by (auto simp: agents_reached_def call_reach_def nth_list_update)

lemma map_call_of_same: "k < length xs \<Longrightarrow> call_of a = call_of (xs ! k) \<Longrightarrow> (map call_of xs)[k := call_of a] = map call_of xs"
  by (simp add: list_update_same_conv)

lemma whole_step_bench:
  assumes "agents_reached st cp pt w" and "whole_step st marshal cp pt w w'"
  shows "(abs_bench w' = abs_bench w \<or> bench_step marshal cp (abs_bench w) (abs_bench w')) \<and>
    agents_reached st cp pt w'"
proof -
  have n: "length (uacs w) = agents_of cp" "Role cp = ''uac''"
    and r: "\<And>k. k < length (uacs w) \<Longrightarrow> call_reach st cp k pt (uacs w ! k)"
    using assms(1) by (simp_all add: agents_reached_def)
  show ?thesis using assms(2)
  proof (cases rule: whole_step.cases)
    case (main_loop c e s)
    then show ?thesis using bench_step.main_pass [of "abs_bench w" c marshal cp e s] assms(1)
      by (simp add: abs_bench_def agents_reached_def)
  next
    case (agent_works k a)
    have "call_of a = call_of (uacs w ! k)"
      using works_call_of [OF call_step_spec [OF r [OF agent_works(2)] n(2) agent_works(3)] agent_works(4,5)]
      by (simp add: call_of_def)
    then show ?thesis
      using agents_reached_update [OF assms(1) agent_works(2,3)] map_call_of_same [OF agent_works(2)] agent_works(1)
      by (simp add: abs_bench_def map_update)
  next
    case (agent_called k a rest)
    note c = called_call_of [OF agent_called(3,4)]
    show ?thesis
      using bench_step.take_call [of k "abs_bench w" "lastIndex (fst a)" rest marshal cp] c agent_called
        agents_reached_update [OF assms(1) agent_called(2,3)]
      by (simp add: abs_bench_def map_update)
  next
    case (agent_reporting k a x)
    have c: "call_of (uacs w ! k) = Some (CallIndex x)" "call_of a = None" "report_of k x"
      using reporting_call_of [OF call_step_spec [OF r [OF agent_reporting(2)] n(2) agent_reporting(3)] agent_reporting(4)]
      by (simp_all add: call_of_def)
    show ?thesis
      using bench_step.report_call [of k "abs_bench w" x cp marshal] c agent_reporting
        agents_reached_update [OF assms(1) agent_reporting(2,3)]
      by (simp add: abs_bench_def map_update report_of_def)
  next
    case signalled
    then show ?thesis using bench_step.signal [of marshal cp "abs_bench w"] assms(1)
      by (simp add: abs_bench_def agents_reached_def)
  qed
qed

interpretation whole: refinement_system "whole_start cp" "whole_step st marshal cp pt"
  "\<lambda>b. valid_profile cp \<and> bench_start cp b" "bench_step marshal cp" abs_bench "agents_reached st cp pt"
  for cp st marshal pt
proof unfold_locales
  fix w
  assume s: "whole_start cp w"
  have "map call_of (uacs w) = replicate (agents_of cp) None"
    using s by (intro nth_equalityI) (auto simp: whole_start_def call_of_def ua_start_def abs_agent_def ua_init_def)
  moreover have "call_reach st cp k pt (uacs w ! k)" if "k < agents_of cp" for k
    unfolding call_reach_def using s that by (intro reach_init) (auto simp: whole_start_def split_def)
  ultimately show "(valid_profile cp \<and> bench_start cp (abs_bench w)) \<and> agents_reached st cp pt w"
    using s by (auto simp: whole_start_def bench_start_def abs_bench_def agents_reached_def)
next
  fix w w'
  assume "agents_reached st cp pt w" and "whole_step st marshal cp pt w w'"
  then show "(abs_bench w' = abs_bench w \<or> bench_step marshal cp (abs_bench w) (abs_bench w')) \<and>
      agents_reached st cp pt w'" by (rule whole_step_bench)
qed

lemma whole_reach_bench:
  assumes "whole_reach st marshal cp pt w"
  shows "bench_reach marshal cp (abs_bench w)" and "agents_reached st cp pt w"
  using whole.reach_refines [OF assms [unfolded whole_reach_def]] by (simp_all add: bench_reach_def)

subsection \<open>The program\<close>

text \<open>
  C1. The calling program as a whole does what each of its parts relies on the others for. Its
  states are states of the main loop's system, whose agents are the real ones; the agents' are
  states of the agent's system; a call waits for an agent only when the agent has reported
  the ones before it; an agent that has a call to report finds room for the report; and the main
  loop never blocks and never indexes out of range.
\<close>

theorem whole_bench_sound:
  assumes "whole_reach st marshal cp pt w"
  shows "bench_reach marshal cp (abs_bench w) \<and>
    (\<forall>k < agents_of cp. ua_reach cp k pt (fst (uacs w ! k)) \<and>
       (startCallChan (mainLoop w) ! k \<noteq> [] \<longrightarrow>
          started (fst (uacs w ! k)) = length (reported (ua (fst (uacs w ! k))))) \<and>
       (started (fst (uacs w ! k)) \<noteq> length (reported (ua (fst (uacs w ! k)))) \<longrightarrow>
          length (callEndChan (mainLoop w)) < agents_of cp)) \<and>
    (\<forall>c. ready c (mainLoop w) \<longrightarrow> (\<exists>e s. uac_pass marshal cp c (mainLoop w) = Proceeds (e, s)))"
proof -
  note b = whole_reach_bench [OF assms]
  have ok: "uac_ok (agents_of cp) (agents (abs_bench w)) [] (mainLoop w)" "limit_ok cp (mainLoop w)"
    using bench_reach_ok [OF b(1)] by (simp_all add: bench_ok_def abs_bench_def)
  have agents: "length (uacs w) = agents_of cp" "\<And>k. k < agents_of cp \<Longrightarrow> call_reach st cp k pt (uacs w ! k)"
    using b(2) by (simp_all add: agents_reached_def)
  have each: "ua_reach cp k pt (fst (uacs w ! k)) \<and>
      (startCallChan (mainLoop w) ! k \<noteq> [] \<longrightarrow> call_of (uacs w ! k) = None) \<and>
      (call_of (uacs w ! k) \<noteq> None \<longrightarrow> length (callEndChan (mainLoop w)) < agents_of cp)"
    if k: "k < agents_of cp" for k
    using call_reach_refines [of st cp k pt "fst (uacs w ! k)" "snd (uacs w ! k)"] agents(2) [OF k]
      agent_has_room [OF b(1), of k] k agents(1) by (cases "call_of (uacs w ! k)") (simp_all add: abs_bench_def)
  have idle: "call_of a = None \<longleftrightarrow> started (fst a) = length (reported (ua (fst a)))" for a
    by (simp add: call_of_def abs_agent_def)
  have "\<forall>c. ready c (mainLoop w) \<longrightarrow> (\<exists>e s. uac_pass marshal cp c (mainLoop w) = Proceeds (e, s))"
    using uac_pass_ok [OF ok(1) refl ok(2), of _ marshal] by blast
  then show ?thesis using b(1) each unfolding idle by blast
qed

text \<open>Two agents that got ready.\<close>

definition second_report :: call_report where
  "second_report = sample_account_report\<lparr> Account := ''101'', AccountIndex := 1, RemoteAccount := ''201'' \<rparr>"

definition second_ua :: ua_sys where
  "second_ua = sample_ua\<lparr> ua := ua_init second_report \<rparr>"

lemma second_setup: "\<exists>acc called. ua_setup (\<lambda>_. True) (\<lambda>_. 200) sample_parsed 1 = Returns (Ready acc called second_report)"
proof -
  have "InternalAccounts sample_parsed = [''100'', ''101'', ''102'']"
    "InternalPasswords sample_parsed = [''pw'', ''pw'', ''pw'']"
    "InternalCalledParties sample_parsed = [''200'', ''201'', ''202'']"
    "InternalLocalPorts sample_parsed = [''0'', ''0'', ''0'']"
    by (simp_all add: sample_parsed_def)
  then show ?thesis by (simp add: ua_setup_def account_of_def first_report_def called_uri_def slot_def sample_role
        second_report_def sample_account_report_def)
qed

definition sample_whole :: whole where
  "sample_whole = \<lparr> mainLoop = main sample_bench, uacs = [(sample_ua, []), (second_ua, [])], looping = True \<rparr>"

lemma sample_whole_start: "whole_start sample_parsed sample_whole"
proof -
  have "ua_start sample_parsed 0 sample_ua" using sample_setup by (fastforce simp: ua_start_def sample_agents sample_ua_def)
  moreover have "ua_start sample_parsed 1 second_ua"
    using second_setup by (fastforce simp: ua_start_def sample_agents second_ua_def sample_ua_def)
  ultimately show ?thesis
    by (auto simp: whole_start_def sample_whole_def sample_valid sample_role sample_agents sample_bench_def less_2_cases_iff)
qed

lemma sample_whole_reach:
  "whole_reach st marshal sample_parsed pt (sample_whole\<lparr> mainLoop := main sample_started, looping := True \<rparr>)"
proof -
  have "whole_step st marshal sample_parsed pt sample_whole
      (sample_whole\<lparr> mainLoop := main sample_started, looping := (Again = Again) \<rparr>)"
    by (rule whole_step.main_loop [where c = Default_Case])
      (simp_all add: sample_whole_def sample_pass, simp add: sample_bench_def uac_init_def)
  then show ?thesis
    using reach_step [OF reach_init [of "whole_start sample_parsed", OF sample_whole_start]] unfolding whole_reach_def by simp
qed

theorem whole_bench_sound_witness:
  "startCallChan (main sample_started) ! 0 = [1] \<and> started sample_ua = length (reported (ua sample_ua)) \<and>
   bench_reach (\<lambda>_. Inr ''{}'') sample_parsed (abs_bench (sample_whole\<lparr> mainLoop := main sample_started, looping := True \<rparr>))"
proof -
  have c: "startCallChan (main sample_started) ! 0 = [1]" by (simp add: sample_started_def)
  have n: "0 < agents_of sample_parsed" by (simp add: sample_agents)
  from whole_bench_sound [OF sample_whole_reach [of mem_recorders "\<lambda>_. Inr ''{}''" "\<lambda>_. ''t''"]] c n
  have "started (fst (uacs sample_whole ! 0)) = length (reported (ua (fst (uacs sample_whole ! 0))))"
    "bench_reach (\<lambda>_. Inr ''{}'') sample_parsed (abs_bench (sample_whole\<lparr> mainLoop := main sample_started, looping := True \<rparr>))"
    by auto
  then show ?thesis using c by (simp add: sample_whole_def)
qed

end
