(* ===== verification/Program.thy ===== *)
theory Program
  imports Ua_Properties
begin

text \<open>
  The start and the end of the program (\<^verbatim>\<open>main\<close>, and the ends of \<^verbatim>\<open>uac\<close> and \<^verbatim>\<open>uas\<close> in
  \<^verbatim>\<open>src/main.go\<close>): the profile, the two files it may write, the main loop it enters, the summary it
  prints. The file system and the clock are arguments: \<open>create\<close> is the error of \<^verbatim>\<open>os.Create\<close>, the two
  stamps are the times in the names of the files. A fatal error ends the program.
\<close>

datatype 'io fatal =
  Usage | Bad_Profile string "'io profile_error" | No_Log_File string 'io | No_Details_File string 'io

record program =
  programProfile :: call_profile
  logFile :: "string option"
  detailsFile :: "(string \<times> text_file) option"

definition log_directory :: "call_profile \<Rightarrow> string" where
  "log_directory cp =
     (if LogDir cp \<noteq> [] \<and> last (LogDir cp) \<noteq> CHR ''/'' then LogDir cp @ ''/'' else LogDir cp)"

definition log_file_name :: "call_profile \<Rightarrow> string \<Rightarrow> string" where
  "log_file_name cp stamp = log_directory cp @ Role cp @ ''_benchlog_'' @ stamp @ ''.log''"

definition details_file_name :: "call_profile \<Rightarrow> string \<Rightarrow> string" where
  "details_file_name cp stamp = log_directory cp @ Role cp @ ''_calldetails_'' @ stamp @ ''.json''"

definition create_log :: "(string \<Rightarrow> 'io option) \<Rightarrow> string \<Rightarrow> call_profile \<Rightarrow> ('io fatal, string option) result" where
  "create_log create stamp cp =
     (if LogType cp = ''file'' then
        (case create (log_file_name cp stamp) of
           Some e \<Rightarrow> Inl (No_Log_File (log_file_name cp stamp) e)
         | None \<Rightarrow> Inr (Some (log_file_name cp stamp)))
      else Inr None)"

definition create_details ::
  "(string \<Rightarrow> 'io option) \<Rightarrow> string \<Rightarrow> call_profile \<Rightarrow> ('io fatal, (string \<times> text_file) option) result" where
  "create_details create stamp cp =
     (if CallDetailsFile cp then
        (case create (details_file_name cp stamp) of
           Some e \<Rightarrow> Inl (No_Details_File (details_file_name cp stamp) e)
         | None \<Rightarrow> Inr (Some (details_file_name cp stamp, open_details)))
      else Inr None)"

definition main_start ::
  "(string \<Rightarrow> ('io, string) result) \<Rightarrow> (string \<Rightarrow> call_profile \<Rightarrow> call_profile) \<Rightarrow> (string \<Rightarrow> 'io option) \<Rightarrow>
   string \<Rightarrow> string \<Rightarrow> string \<Rightarrow> ('io fatal, program) result" where
  "main_start read_file unmarshal create stamp1 stamp2 profilePath =
     (if profilePath = [] then Inl Usage
      else bind_result (wrap_error (Bad_Profile profilePath)
          (parse_call_profile read_file unmarshal profilePath zero_profile)) (\<lambda>cp.
        bind_result (create_log create stamp1 cp) (\<lambda>logf.
        bind_result (create_details create stamp2 cp) (\<lambda>details.
          Inr \<lparr> programProfile = cp, logFile = logf, detailsFile = details \<rparr>))))"

text \<open>The loop the program enters, in its first state.\<close>

definition main_enters :: "program \<Rightarrow> uac_state + main_state" where
  "main_enters p =
     (let cp = programProfile p; f = map_option snd (detailsFile p)
      in if Role cp = ''uac'' then Inl (uac_init cp f) else Inr (uas_init f))"

definition count_line :: "string \<Rightarrow> int \<Rightarrow> string" where
  "count_line what n = CHR 0x09 # what @ '' calls: '' @ show_int n"

definition results_summary :: "'z main_state_scheme \<Rightarrow> string list" where
  "results_summary s = [count_line ''Completed'' (completedCalls s), count_line ''Successful'' (okCalls s),
     count_line ''Failed'' (badCalls s), count_line ''Unknown'' (unknownCalls s), ''All done.'']"

definition uac_summary :: "uac_state \<Rightarrow> string list" where
  "uac_summary s = [''Wait for UACs to exit...'', ''Call summary:'', count_line ''Started'' (startedCalls s)] @
     results_summary s"

definition uas_summary :: "main_state \<Rightarrow> string list" where
  "uas_summary s = [''Wait for UASs to exit...'', ''Call summary:''] @ results_summary s"

subsection \<open>What a program that started can rely on\<close>

lemma main_start_InrE:
  assumes "main_start read_file unmarshal create stamp1 stamp2 path = Inr p"
  obtains "parse_call_profile read_file unmarshal path zero_profile = Inr (programProfile p)"
    and "create_log create stamp1 (programProfile p) = Inr (logFile p)"
    and "create_details create stamp2 (programProfile p) = Inr (detailsFile p)"
  using assms by (auto simp: main_start_def bind_result_Inr_iff split: if_splits)

lemma file_names_differ: "log_file_name cp t \<noteq> details_file_name cp t'"
proof
  assume "log_file_name cp t = details_file_name cp t'"
  then have "last (log_file_name cp t) = last (details_file_name cp t')" by simp
  then show False by (simp add: log_file_name_def details_file_name_def)
qed

lemma agents_have_accounts:
  assumes "valid_profile cp" and "k < agents_of cp"
  shows "\<exists>boot. ua_setup listen register cp k = Returns boot \<and>
    (\<forall>acc called r. boot = Ready acc called r \<longrightarrow> authUser acc = InternalAccounts cp ! k \<and> AccountIndex r = int k)"
  using account_in_range [OF assms, of listen register] by blast

text \<open>
  C14. A program that gets past its start has at least one user agent to start, and each of them
  finds its account, password, port and (calling) called party in the profile: no index is out of
  range, and an agent that gets ready reports under its own index. Its log is never written to the
  file of the call details.
\<close>

theorem started_program_in_range:
  assumes "main_start read_file unmarshal create stamp1 stamp2 path = Inr p"
  shows "0 < agents_of (programProfile p) \<and>
    (\<forall>k < agents_of (programProfile p). \<exists>boot. ua_setup listen register (programProfile p) k = Returns boot \<and>
       (\<forall>acc called r. boot = Ready acc called r \<longrightarrow>
          authUser acc = InternalAccounts (programProfile p) ! k \<and> AccountIndex r = int k)) \<and>
    (\<forall>f g. logFile p = Some f \<longrightarrow> detailsFile p = Some (g, open_details) \<longrightarrow> f \<noteq> g)"
proof -
  let ?cp = "programProfile p"
  from assms have v: "valid_profile ?cp" by (rule main_start_InrE) (rule parsed_profile_valid)
  have "f \<noteq> g" if "logFile p = Some f" "detailsFile p = Some (g, open_details)" for f g
    using assms that file_names_differ
    by (rule_tac main_start_InrE [OF assms])
      (auto simp: create_log_def create_details_def split: if_splits option.splits)
  moreover have "0 < agents_of ?cp" using v by (simp add: valid_profile_def agents_of_def)
  ultimately show ?thesis using agents_have_accounts [OF v] by blast
qed

theorem started_program_in_range_witness:
  "\<exists>p. main_start (\<lambda>f. Inr f :: (unit, string) result) (\<lambda>_ _. sample_profile) (\<lambda>_. None) ''t1'' ''t2'' ''uac.json'' = Inr p \<and>
     0 < agents_of (programProfile p) \<and> main_enters p = Inl (uac_init sample_parsed None)"
proof -
  let ?p = "\<lparr> programProfile = sample_parsed, logFile = None, detailsFile = None \<rparr>"
  have "LogType sample_parsed = ''console''" "\<not> CallDetailsFile sample_parsed"
    by (simp_all add: sample_parsed_def sample_profile_def zero_profile_def)
  then have m: "main_start (\<lambda>f. Inr f :: (unit, string) result) (\<lambda>_ _. sample_profile) (\<lambda>_. None) ''t1'' ''t2'' ''uac.json'' = Inr ?p"
    using sample_profile_parses by (simp add: main_start_def create_log_def create_details_def)
  from started_program_in_range [OF m] m show ?thesis by (auto simp: main_enters_def sample_role)
qed

end
