(* ===== verification/Nal_Types.thy ===== *)
theory Nal_Types
  imports H264_Reader Go_Strings
begin

text \<open>
  The printed form of a NAL unit type (\<^verbatim>\<open>src/rtc/h264reader/nalunittype.go\<close>): a name, the same for
  all types without one of their own, and the number.
\<close>

definition nal_type_names :: "(u8 \<times> string) list" where
  "nal_type_names =
     [(0, ''Unspecified''), (1, ''CodedSliceNonIdr''), (2, ''CodedSliceDataPartitionA''),
      (3, ''CodedSliceDataPartitionB''), (4, ''CodedSliceDataPartitionC''), (5, ''CodedSliceIdr''),
      (6, ''SEI''), (7, ''SPS''), (8, ''PPS''), (9, ''AUD''), (10, ''EndOfSequence''), (11, ''EndOfStream''),
      (12, ''Filler''), (13, ''SpsExt''), (19, ''NalUnitTypeCodedSliceAux'')]"

definition nal_type_string :: "u8 \<Rightarrow> string" where
  "nal_type_string t =
     (case map_of nal_type_names t of None \<Rightarrow> ''Unknown'' | Some str \<Rightarrow> str) @ ''('' @ show_int (uint t) @ '')''"

subsection \<open>No two types print the same\<close>

lemma show_nat_inj:
  assumes "show_nat m = show_nat n" and "m < 2 ^ 64" and "n < 2 ^ 64"
  shows "m = n"
proof -
  have "(Inr m :: (atoi_error, nat) result) = parse_uint (show_nat m) 0" by (simp only: parse_uint_show_nat [OF assms(2)])
  also have "\<dots> = Inr n" unfolding assms(1) by (rule parse_uint_show_nat [OF assms(3)])
  finally show ?thesis by (rule sum.inject(2) [THEN iffD1])
qed

lemma nal_type_names_plain: "list_all (\<lambda>(t, s). CHR ''('' \<notin> set s) nal_type_names"
  by (simp add: nal_type_names_def)

lemma nal_type_name_plain:
  "CHR ''('' \<notin> set (case map_of nal_type_names t of None \<Rightarrow> ''Unknown'' | Some str \<Rightarrow> str)"
proof (cases "map_of nal_type_names t")
  case (Some s)
  then show ?thesis using map_of_SomeD [OF Some] nal_type_names_plain by (auto simp: list_all_iff)
qed simp

lemma append_stop: "c \<notin> set xs \<Longrightarrow> c \<notin> set ys \<Longrightarrow> xs @ c # us = ys @ c # vs \<Longrightarrow> us = vs"
  by (induction xs arbitrary: ys) (auto simp: Cons_eq_append_conv append_eq_Cons_conv)

lemma nal_type_string_inj: "nal_type_string t = nal_type_string u \<Longrightarrow> t = u"
proof -
  assume "nal_type_string t = nal_type_string u"
  then have "show_int (uint t) @ '')'' = show_int (uint u) @ '')''"
    unfolding nal_type_string_def
    using append_stop [OF nal_type_name_plain nal_type_name_plain, of t "show_int (uint t) @ '')''" u "show_int (uint u) @ '')''"]
    by simp
  then have "show_nat (nat (uint t)) = show_nat (nat (uint u))" by (simp add: show_int_def)
  moreover have "nat (uint w) < 2 ^ 64" for w :: u8
  proof -
    have "unat w < 2 ^ 8" using unsigned_less [of w, where 'a = nat] by simp
    then show ?thesis by simp
  qed
  ultimately have "nat (uint t) = nat (uint u)" using show_nat_inj by metis
  then show ?thesis by (simp add: word_unat_eq_iff)
qed

end
