(* ===== verification/Spec2Isabelle.thy ===== *)
theory Spec2Isabelle
  imports Loopback Whole_Bench Program Media_Callbacks Nal_Types
begin

text \<open>
  A verification development for a benchmark of FreeSWITCH's WebRTC: a Go program that registers many
  SIP user agents over WebSocket, makes (role \<^verbatim>\<open>uac\<close>) or takes (role \<^verbatim>\<open>uas\<close>) calls with them, plays
  audio or video files into the calls, records what it receives, and writes a report of each call.

  \<^bold>\<open>The program's parts.\<close> \<^verbatim>\<open>main.go\<close> reads a profile (\<^verbatim>\<open>profile\<close>), starts one goroutine per user
  agent and runs a loop that hands out calls on one channel per agent and collects reports from a
  common channel. A user agent (\<^verbatim>\<open>sip/ua.go\<close>) drives the SIP stack and, for each call, starts a media
  function (\<^verbatim>\<open>rtc/media.go\<close>) and talks to it over channels for descriptions, log lines and its end.
  The media function sets up a WebRTC connection, plays with an ingester (\<^verbatim>\<open>rtc/ingester.go\<close>, reading
  H.264 with \<^verbatim>\<open>rtc/h264reader\<close>), and records with the writers (\<^verbatim>\<open>rtc/h264writer\<close>,
  \<^verbatim>\<open>rtc/g711writer\<close>).

  \<^bold>\<open>Conventions.\<close> A Go string is a list of 8-bit characters, a byte slice a list of \<open>8 word\<close>; Go's
  \<^verbatim>\<open>int\<close> is \<open>int\<close> with \<open>wrap64\<close> where it may overflow; 32- and 64-bit unsigned values are words. An error
  is the left side of a sum; code that may panic returns an \<open>outcome\<close> and a loop body that may also
  block a \<open>progress\<close>. A buffered channel is the list of the messages in it. Mutable state is a record
  that each operation returns changed. What is third-party (the SIP stack, WebRTC, the Ogg reader
  and writer, files, the clock, JSON) is an argument of the definitions that use it.

  \<^bold>\<open>Theories.\<close>
  \<^item> \<open>Prelude\<close>: the shared types, the error monad, reachability, and two locales: \<open>invariant_system\<close>
    (an invariant of a step relation) and \<open>refinement_system\<close> (a detailed system whose states map
    to those of an abstract one). \<open>Go_Strings\<close>: \<^verbatim>\<open>strings.Index\<close>, \<^verbatim>\<open>Split\<close>, \<^verbatim>\<open>strconv.Atoi\<close>, decimal printing.
  \<^item> \<open>Profile\<close>, \<open>Call_Profile\<close> (\<^verbatim>\<open>profile/profile.go\<close>): range patterns such as \<^verbatim>\<open>10[01-20]{2}\<close> and the checks
    on a profile. Shown: what a pattern expands to, the two ways to repeat, each error, and the
    well-formedness of an accepted profile on which every other part rests.
  \<^item> \<open>H264_Reader\<close> (\<^verbatim>\<open>h264reader.go\<close>), \<open>H264_Stream\<close>, \<open>Nal_Types\<close> (\<^verbatim>\<open>nalunittype.go\<close>): the Annex-B reader over a
    source that delivers chunks (locale \<open>byte_source\<close>). Shown: it refines a scan of the byte list,
    so chunks do not matter; reading a written stream gives its units; where an empty unit panics.
  \<^item> \<open>Sdp\<close> (\<^verbatim>\<open>rtc/util.go\<close> and the edits in \<^verbatim>\<open>media.go\<close>): line and item edits of descriptions.
  \<^item> \<open>Rtp_H264\<close> (\<^verbatim>\<open>packageAsSTAPA\<close>, \<^verbatim>\<open>isKeyFrame\<close>, the vendored depacketizer), \<open>Media_Writers\<close> (locales
    \<open>byte_sink\<close>, \<open>media_writer\<close>): packaging and depackaging are inverse; what is recorded of a stream of
    units in packets of their own, aggregated or in fragments. \<open>Packetizer\<close> (the vendored
    \<^verbatim>\<open>H264Payloader\<close> behind a video track): the payloads of a sample; the unit types it drops, and the
    fragments the depacketizer puts together again.
  \<^item> \<open>Interceptor\<close> (\<^verbatim>\<open>interceptor.go\<close>), \<open>Ingester\<close>, \<open>Audio_Ingester\<close> (\<^verbatim>\<open>ingester.go\<close>, the wall clock of
    \<^verbatim>\<open>util.go\<close>): what a file plays, that playing it ends, the pacing, the loop that plays it again,
    the files opened and not closed.
  \<^item> \<open>Media_Setup\<close>, \<open>Media_Tracks\<close>, \<open>Media_Callbacks\<close>, \<open>Media\<close> (\<^verbatim>\<open>media.go\<close>): codecs, extensions, ICE, the
    tracks and their recorders, \<^verbatim>\<open>doClose\<close>, and \<open>media_func\<close>, one run as the list of its events: an
    interleaving of the function's own events with those of the callbacks, the four workers and the
    goroutine that closes the call, as a schedule says. \<^verbatim>\<open>doClose\<close> is called twice, with an
    unsynchronised flag: \<open>close_race\<close> names the outcomes. Shown: what a user agent may rely on, for
    every schedule and race; a recording that makes a run panic; what a track leaves on disk.
  \<^item> \<open>Loopback\<close>: ingester, packetizer, recorder and reader together, as a round trip of a file.
  \<^item> \<open>Call_Report\<close> (\<^verbatim>\<open>report.go\<close>, the log helper of \<^verbatim>\<open>ua.go\<close>, the details file of \<^verbatim>\<open>main.go\<close>).
  \<^item> \<open>Dispatcher\<close>, \<open>Dispatch_System\<close>, \<open>Dispatch_Progress\<close> (\<^verbatim>\<open>main.go\<close>): one pass of each main loop as a
    function, the system it forms with abstract agents, its invariant, and what each pass of the loop achieves.
  \<^item> \<open>Ua\<close>, \<open>Ua_System\<close>, \<open>Ua_Properties\<close> (\<^verbatim>\<open>ua.go\<close>): one function per case of the \<^verbatim>\<open>select\<close>, the system with
    the SIP stack and the media function as environment, its invariant, and the refinement of the
    abstract agent of \<open>Dispatch_System\<close>. An agent cancels its media function before it waits for it
    (\<open>cancel_and_wait\<close>), asks it to record for the call numbered 1, and logs the error it returns.
  \<^item> \<open>Call_System\<close>: the user agent with its real media functions refines \<open>Ua_System\<close>. \<open>Whole_Bench\<close>: main
    loop, agents and media functions together refine \<open>Dispatch_System\<close>; what each system assumes
    of its environment holds there. \<open>Program\<close>: the start and the end of \<^verbatim>\<open>main\<close>.

  \<^bold>\<open>Fuel and bounds.\<close> No theorem is conditional on fuel. The loops of the ingesters count the tests
  of the context that find it alive; theorems hold for every count that is enough to reach the
  end of the file, and say how many are. The reader's loop (\<open>nal_loop\<close>) and the search for an idle
  agent (\<open>find_idle\<close>) are total or \<open>partial_function (option)\<close>, with their termination proved. The
  repetition count of a range pattern is a Go \<^verbatim>\<open>int\<close>; memory is not bounded.

  \<^bold>\<open>Not modelled.\<close> The vendored packages but for the H.264 packetizer and depacketizer; the network
  (a round trip takes every packet to arrive, in order); the signal handler but for its effect; a data
  race between \<^verbatim>\<open>main\<close> appending to the slice of start channels and the goroutines that index it; the
  finalizer that may close a file the code has forgotten. Several tracks of one call are handled one
  after the other (a call has one media section); the order of the events of different threads
  of a media function is over-approximated (any interleaving, whatever the threads wait for), and
  the lines its callbacks log are an argument.
\<close>

end
